theory Spec2Isabelle
  imports Complex_Main
begin

section \<open>Data model of \<open>pymorphy2/analyzer.py\<close>\<close>

text \<open>
  Words are Python unicode strings: lists of code points. Grammemes and raw tag
  strings are ASCII and are kept as \<open>string\<close>.
\<close>

type_synonym uchar = nat
type_synonym ustring = "uchar list"

text \<open>
  Every Python object has an identity; \<open>is\<close> compares identities. The dictionary
  and the units carry theirs, and a derivation chain (\<open>methods\<close>) refers to its
  producing components by identity.
\<close>

type_synonym obj_id = nat

datatype error = IndexError | AssertionError | ForeignObject obj_id

text \<open>A tag of the gramtab: its raw text and its frozenset of grammemes.\<close>

record Tag =
  raw :: string
  grammemes :: "string set"

text \<open>
  The namedtuple \<open>_Parse\<close>:
  \<open>word, tag, normal_form, para_id, idx, estimate, methods\<close>.
\<close>

record Parse =
  word :: ustring
  tag :: Tag
  normal_form :: ustring
  para_id :: nat
  idx :: nat
  estimate :: real
  methods :: "(obj_id \<times> ustring) list"

text \<open>
  The words DAWG is a collaborator that the analyzer only calls. It is a value with
  the five operations \<open>Dictionary\<close> uses: \<open>word in words\<close>, \<open>similar_items\<close>,
  \<open>similar_item_values\<close>, \<open>similar_keys\<close> and \<open>compile_replaces\<close>.
\<close>

type_synonym replaces = "(uchar \<times> uchar) list"

record WordsDawg =
  contains :: "ustring \<Rightarrow> bool"
  similar_items :: "ustring \<Rightarrow> replaces \<Rightarrow> (ustring \<times> (nat \<times> nat) list) list"
  similar_item_values :: "ustring \<Rightarrow> replaces \<Rightarrow> (nat \<times> nat) list list"
  similar_keys :: "ustring \<Rightarrow> replaces \<Rightarrow> ustring list"
  compile_replaces :: "(uchar \<times> uchar) list \<Rightarrow> replaces"

text \<open>
  \<open>opencorpora_dict.load(path)\<close> gives the loaded tables. Paradigms are arrays of
  unsigned integers; \<open>Tag_updated_grammemes\<close> is the method \<open>updated_grammemes\<close> of
  the loaded \<open>Tag\<close> class, whose code is not part of \<open>analyzer.py\<close> and stays a
  parameter. The prediction tables and the metadata are used by no operation below.
\<close>

record LoadedDictionary =
  paradigms :: "nat list list"
  gramtab :: "Tag list"
  paradigm_prefixes :: "ustring list"
  suffixes :: "ustring list"
  words :: WordsDawg
  Tag_updated_grammemes :: "Tag \<Rightarrow> string set \<Rightarrow> string set"

record Dictionary = LoadedDictionary +
  self_id :: obj_id
  ee :: replaces

text \<open>The Cyrillic letters of the replacement rule \<open>{'e': 'yo'}\<close>: U+0435 and U+0451.\<close>

definition cyr_ie :: uchar where
  "cyr_ie = 1077"

definition cyr_io :: uchar where
  "cyr_io = 1105"

definition Dictionary_init :: "obj_id \<Rightarrow> LoadedDictionary \<Rightarrow> Dictionary" where
  "Dictionary_init self data =
     \<lparr> paradigms = paradigms data,
       gramtab = gramtab data,
       paradigm_prefixes = paradigm_prefixes data,
       suffixes = suffixes data,
       words = words data,
       Tag_updated_grammemes = Tag_updated_grammemes data,
       self_id = self,
       ee = compile_replaces (words data) [(cyr_ie, cyr_io)] \<rparr>"

section \<open>Errors and indexing\<close>

text \<open>
  \<open>xs[i]\<close> on a list, tuple or array with a non-negative index: \<open>IndexError\<close> out of
  range. All indices of the tables are unsigned, so no index is negative.
\<close>

definition getitem :: "'a list \<Rightarrow> nat \<Rightarrow> error + 'a" where
  "getitem xs i = (if i < length xs then Inr (xs ! i) else Inl IndexError)"

text \<open>Sequencing: an exception of the first computation ends the whole.\<close>

definition bind :: "error + 'a \<Rightarrow> ('a \<Rightarrow> error + 'b) \<Rightarrow> error + 'b" where
  "bind m f = (case m of Inl e \<Rightarrow> Inl e | Inr v \<Rightarrow> f v)"

text \<open>A loop \<open>for x in xs: res.append(f(x))\<close> whose body may raise.\<close>

fun for_append :: "('a \<Rightarrow> error + 'b) \<Rightarrow> 'a list \<Rightarrow> 'b list \<Rightarrow> error + 'b list" where
  "for_append f [] res = Inr res"
| "for_append f (x # xs) res =
     (case f x of Inl e \<Rightarrow> Inl e | Inr y \<Rightarrow> for_append f xs (res @ [y]))"

section \<open>Dictionary: access to the paradigms\<close>

definition build_tag_info :: "Dictionary \<Rightarrow> nat \<Rightarrow> nat \<Rightarrow> error + Tag" where
  "build_tag_info d pid i =
     bind (getitem (paradigms d) pid) (\<lambda>paradigm.
       let tag_info_offset = length paradigm div 3 in
       bind (getitem paradigm (tag_info_offset + i)) (\<lambda>tag_id.
         getitem (gramtab d) tag_id))"

definition build_paradigm_info ::
  "Dictionary \<Rightarrow> nat \<Rightarrow> error + (ustring \<times> Tag \<times> ustring) list" where
  "build_paradigm_info d pid =
     bind (getitem (paradigms d) pid) (\<lambda>paradigm.
       let paradigm_len = length paradigm div 3 in
       for_append (\<lambda>i.
         bind (getitem paradigm (paradigm_len * 2 + i)) (\<lambda>prefix_id.
         bind (getitem (paradigm_prefixes d) prefix_id) (\<lambda>prefix.
         bind (getitem paradigm i) (\<lambda>suffix_id.
         bind (getitem (suffixes d) suffix_id) (\<lambda>suffix.
         bind (build_tag_info d pid i) (\<lambda>t.
           Inr (prefix, t, suffix)))))))
         [0..<paradigm_len] [])"

text \<open>
  Python slices never raise: \<open>w[a:]\<close> is \<open>drop a w\<close>, and \<open>w[a:-b]\<close> with \<open>b > 0\<close>
  ends at \<open>len(w) - b\<close>, or at 0 when \<open>b > len(w)\<close>, which is
  \<open>drop a (take (length w - b) w)\<close> with the truncating subtraction of \<open>nat\<close>.
\<close>

definition build_stem :: "Dictionary \<Rightarrow> nat list \<Rightarrow> nat \<Rightarrow> ustring \<Rightarrow> error + ustring" where
  "build_stem d paradigm i fixed_word =
     (let paradigm_len = length paradigm div 3 in
      bind (getitem paradigm (paradigm_len * 2 + i)) (\<lambda>prefix_id.
      bind (getitem (paradigm_prefixes d) prefix_id) (\<lambda>prefix.
      bind (getitem paradigm i) (\<lambda>suffix_id.
      bind (getitem (suffixes d) suffix_id) (\<lambda>suffix.
        if suffix \<noteq> []
        then Inr (drop (length prefix) (take (length fixed_word - length suffix) fixed_word))
        else Inr (drop (length prefix) fixed_word))))))"

definition build_normal_form :: "Dictionary \<Rightarrow> nat \<Rightarrow> nat \<Rightarrow> ustring \<Rightarrow> error + ustring" where
  "build_normal_form d pid i fixed_word =
     (if i = 0 then Inr fixed_word
      else
        bind (getitem (paradigms d) pid) (\<lambda>paradigm.
          let paradigm_len = length paradigm div 3 in
          bind (build_stem d paradigm i fixed_word) (\<lambda>stem.
          bind (getitem paradigm (paradigm_len * 2 + 0)) (\<lambda>normal_prefix_id.
          bind (getitem paradigm 0) (\<lambda>normal_suffix_id.
          bind (getitem (paradigm_prefixes d) normal_prefix_id) (\<lambda>normal_prefix.
          bind (getitem (suffixes d) normal_suffix_id) (\<lambda>normal_suffix.
            Inr (normal_prefix @ stem @ normal_suffix))))))))"

section \<open>Dictionary: parsing and tagging\<close>

text \<open>
  The inner loop of \<open>Dictionary.parse\<close> over the \<open>(para_id, idx)\<close> pairs attached to
  one corrected spelling. The state is the result list and the memo
  \<open>para_normal_forms\<close> of this call.
\<close>

fun parse_parses ::
  "Dictionary \<Rightarrow> ustring \<Rightarrow> (nat \<times> nat) list \<Rightarrow> Parse list \<times> (nat \<rightharpoonup> ustring)
     \<Rightarrow> error + Parse list \<times> (nat \<rightharpoonup> ustring)" where
  "parse_parses d fixed_word [] st = Inr st"
| "parse_parses d fixed_word ((pid, i) # parses) (res, para_normal_forms) =
     (case (case para_normal_forms pid of
              None \<Rightarrow>
                (case build_normal_form d pid i fixed_word of
                   Inl e \<Rightarrow> Inl e
                 | Inr nf \<Rightarrow> Inr (nf, para_normal_forms(pid \<mapsto> nf)))
            | Some nf \<Rightarrow> Inr (nf, para_normal_forms)) of
        Inl e \<Rightarrow> Inl e
      | Inr (nf, memo) \<Rightarrow>
          (case build_tag_info d pid i of
             Inl e \<Rightarrow> Inl e
           | Inr t \<Rightarrow>
               parse_parses d fixed_word parses
                 (res @ [\<lparr> word = fixed_word, tag = t, normal_form = nf, para_id = pid,
                           idx = i, estimate = 1, methods = [(self_id d, fixed_word)] \<rparr>],
                  memo)))"

text \<open>The outer loop over the \<open>(fixed_word, parses)\<close> items of the similar-key lookup.\<close>

fun parse_items ::
  "Dictionary \<Rightarrow> (ustring \<times> (nat \<times> nat) list) list \<Rightarrow> Parse list \<times> (nat \<rightharpoonup> ustring)
     \<Rightarrow> error + Parse list \<times> (nat \<rightharpoonup> ustring)" where
  "parse_items d [] st = Inr st"
| "parse_items d ((fixed_word, parses) # para_data) st =
     (case parse_parses d fixed_word parses st of
        Inl e \<Rightarrow> Inl e
      | Inr st' \<Rightarrow> parse_items d para_data st')"

definition Dictionary_parse :: "Dictionary \<Rightarrow> ustring \<Rightarrow> error + Parse list" where
  "Dictionary_parse d w =
     bind (parse_items d (similar_items (words d) w (ee d)) ([], Map.empty))
       (\<lambda>(res, para_normal_forms). Inr res)"

text \<open>\<open>Dictionary.tag\<close>: the same two loops, with \<open>build_tag_info\<close> unrolled.\<close>

definition tag_of_pair :: "Dictionary \<Rightarrow> nat \<times> nat \<Rightarrow> error + Tag" where
  "tag_of_pair d = (\<lambda>(pid, i).
     bind (getitem (paradigms d) pid) (\<lambda>paradigm.
       let paradigm_len = length paradigm div 3 in
       bind (getitem paradigm (paradigm_len + i)) (\<lambda>tag_id.
         getitem (gramtab d) tag_id)))"

fun tag_items :: "Dictionary \<Rightarrow> (nat \<times> nat) list list \<Rightarrow> Tag list \<Rightarrow> error + Tag list" where
  "tag_items d [] result = Inr result"
| "tag_items d (parse # para_data) result =
     (case for_append (tag_of_pair d) parse result of
        Inl e \<Rightarrow> Inl e
      | Inr result' \<Rightarrow> tag_items d para_data result')"

definition Dictionary_tag :: "Dictionary \<Rightarrow> ustring \<Rightarrow> error + Tag list" where
  "Dictionary_tag d w = tag_items d (similar_item_values (words d) w (ee d)) []"

section \<open>Dictionary: lexeme, normalization, membership\<close>

text \<open>
  \<open>Dictionary.get_lexeme(form, methods)\<close>. The assertion reads the parameter
  \<open>methods\<close>; unpacking \<open>form\<close> then rebinds that name, so the records built carry the
  chain of \<open>form\<close>.
\<close>

definition Dictionary_get_lexeme ::
  "Dictionary \<Rightarrow> Parse \<Rightarrow> (obj_id \<times> ustring) list \<Rightarrow> error + Parse list" where
  "Dictionary_get_lexeme d form ms =
     (if \<not> (case ms of [] \<Rightarrow> True | m # rest \<Rightarrow> fst m = self_id d) then Inl AssertionError
      else
        bind (getitem (paradigms d) (para_id form)) (\<lambda>paradigm.
        bind (build_stem d paradigm (idx form) (word form)) (\<lambda>stem.
        bind (build_paradigm_info d (para_id form)) (\<lambda>info.
          Inr (map (\<lambda>(index, (prefix, t, suffix)).
                 \<lparr> word = prefix @ stem @ suffix, tag = t, normal_form = normal_form form,
                   para_id = para_id form, idx = index, estimate = estimate form,
                   methods = methods form \<rparr>)
               (enumerate 0 info))))))"

definition Dictionary_normalized :: "Dictionary \<Rightarrow> Parse \<Rightarrow> error + Parse" where
  "Dictionary_normalized d form =
     (if idx form = 0 then Inr form
      else
        bind (build_tag_info d (para_id form) 0) (\<lambda>t.
          Inr \<lparr> word = normal_form form, tag = t, normal_form = normal_form form,
                para_id = para_id form, idx = 0, estimate = estimate form,
                methods = methods form \<rparr>))"

definition Dictionary_word_is_known :: "Dictionary \<Rightarrow> ustring \<Rightarrow> bool \<Rightarrow> bool" where
  "Dictionary_word_is_known d w strict_ee =
     (if strict_ee then contains (words d) w
      else similar_keys (words d) w (ee d) \<noteq> [])"

section \<open>The analyzer\<close>

text \<open>
  A unit of the pipeline, by the operations the analyzer calls on it. \<open>seen\<close> is a
  set the units share and update during one query; its elements are the units'
  business. The units' code is not part of \<open>analyzer.py\<close>: \<open>parse\<close> and \<open>tag\<close> are
  taken by their contract, as functions that return a list and leave \<open>seen\<close>
  updated.
\<close>

record 's AnalyzerUnit =
  unit_id :: obj_id
  terminal :: bool
  unit_parse :: "ustring \<Rightarrow> 's set \<Rightarrow> Parse list \<times> 's set"
  unit_tag :: "ustring \<Rightarrow> 's set \<Rightarrow> Tag list \<times> 's set"
  unit_get_lexeme :: "Parse \<Rightarrow> (obj_id \<times> ustring) list \<Rightarrow> error + Parse list"
  unit_normalized :: "Parse \<Rightarrow> error + Parse"

text \<open>\<open>result_type\<close> is \<open>True\<close> for the class \<open>Parse\<close> and \<open>False\<close> for \<open>None\<close>.\<close>

record 's MorphAnalyzer =
  dictionary :: Dictionary
  result_type :: bool
  units :: "'s AnalyzerUnit list"

text \<open>
  \<open>self._result_type(*p)\<close> builds a \<open>Parse\<close> from the seven values of \<open>p\<close>; the
  analyzer and the dictionary it is bound to are passed explicitly below.
\<close>

definition Parse_new :: "Parse \<Rightarrow> Parse" where
  "Parse_new p =
     \<lparr> word = word p, tag = tag p, normal_form = normal_form p, para_id = para_id p,
       idx = idx p, estimate = estimate p, methods = methods p \<rparr>"

definition wrap_results :: "'s MorphAnalyzer \<Rightarrow> Parse list \<Rightarrow> Parse list" where
  "wrap_results m res = (if \<not> result_type m then res else map Parse_new res)"

text \<open>
  The loop \<open>for unit in self._units\<close> of \<open>parse\<close> and \<open>tag\<close>; \<open>call\<close> is the unit
  operation of the caller. Beside the accumulator \<open>res\<close> and \<open>seen\<close>, the state
  records the positions of the units invoked, in order.
\<close>

fun run_units ::
  "('s AnalyzerUnit \<Rightarrow> 's set \<Rightarrow> 'a list \<times> 's set) \<Rightarrow> 's AnalyzerUnit list \<Rightarrow> nat
     \<Rightarrow> 'a list \<times> 's set \<times> nat list \<Rightarrow> 'a list \<times> 's set \<times> nat list" where
  "run_units call [] k st = st"
| "run_units call (u # us) k (res, seen, invoked) =
     (case call u seen of
        (out, seen') \<Rightarrow>
          if res @ out \<noteq> [] \<and> terminal u then (res @ out, seen', invoked @ [k])
          else run_units call us (Suc k) (res @ out, seen', invoked @ [k]))"

definition MorphAnalyzer_parse_traced ::
  "'s MorphAnalyzer \<Rightarrow> ustring \<Rightarrow> error + Parse list \<times> nat list" where
  "MorphAnalyzer_parse_traced m w =
     bind (Dictionary_parse (dictionary m) w) (\<lambda>res.
       if res = [] then
         (case run_units (\<lambda>u. unit_parse u w) (units m) 0 (res, {}, []) of
            (res', seen, invoked) \<Rightarrow> Inr (wrap_results m res', invoked))
       else Inr (wrap_results m res, []))"

definition MorphAnalyzer_parse :: "'s MorphAnalyzer \<Rightarrow> ustring \<Rightarrow> error + Parse list" where
  "MorphAnalyzer_parse m w = bind (MorphAnalyzer_parse_traced m w) (\<lambda>(res, invoked). Inr res)"

definition MorphAnalyzer_tag_traced ::
  "'s MorphAnalyzer \<Rightarrow> ustring \<Rightarrow> error + Tag list \<times> nat list" where
  "MorphAnalyzer_tag_traced m w =
     bind (Dictionary_tag (dictionary m) w) (\<lambda>res.
       if res = [] then
         (case run_units (\<lambda>u. unit_tag u w) (units m) 0 (res, {}, []) of
            (res', seen, invoked) \<Rightarrow> Inr (res', invoked))
       else Inr (res, []))"

definition MorphAnalyzer_tag :: "'s MorphAnalyzer \<Rightarrow> ustring \<Rightarrow> error + Tag list" where
  "MorphAnalyzer_tag m w = bind (MorphAnalyzer_tag_traced m w) (\<lambda>(res, invoked). Inr res)"

text \<open>
  \<open>methods[-1][0].get_lexeme(form, methods)\<close>: the call goes to the object whose
  identity ends the chain. The objects of the model are the analyzer's dictionary and
  its units; an identity of none of them is reported as \<open>ForeignObject\<close>.
\<close>

definition component_get_lexeme ::
  "'s MorphAnalyzer \<Rightarrow> obj_id \<Rightarrow> Parse \<Rightarrow> (obj_id \<times> ustring) list \<Rightarrow> error + Parse list" where
  "component_get_lexeme m owner form ms =
     (if owner = self_id (dictionary m) then Dictionary_get_lexeme (dictionary m) form ms
      else
        (case find (\<lambda>u. unit_id u = owner) (units m) of
           Some u \<Rightarrow> unit_get_lexeme u form ms
         | None \<Rightarrow> Inl (ForeignObject owner)))"

definition component_normalized :: "'s MorphAnalyzer \<Rightarrow> obj_id \<Rightarrow> Parse \<Rightarrow> error + Parse" where
  "component_normalized m owner form =
     (if owner = self_id (dictionary m) then Dictionary_normalized (dictionary m) form
      else
        (case find (\<lambda>u. unit_id u = owner) (units m) of
           Some u \<Rightarrow> unit_normalized u form
         | None \<Rightarrow> Inl (ForeignObject owner)))"

definition MorphAnalyzer_get_lexeme :: "'s MorphAnalyzer \<Rightarrow> Parse \<Rightarrow> error + Parse list" where
  "MorphAnalyzer_get_lexeme m form =
     (let ms = methods form in
      if ms = [] then Inl IndexError
      else
        bind (component_get_lexeme m (fst (last ms)) form ms) (\<lambda>result.
          Inr (wrap_results m result)))"

text \<open>
  \<open>heapq.nlargest(1, xs, key=f)\<close> of the Python standard library: the empty list for
  an empty \<open>xs\<close>, else \<open>[max(xs, key=f)]\<close>, and \<open>max\<close> replaces its candidate only by
  a strictly greater one, so the first of the maximal elements is returned.
\<close>

definition nlargest1 :: "('a \<Rightarrow> nat) \<Rightarrow> 'a list \<Rightarrow> 'a list" where
  "nlargest1 key xs =
     (case xs of
        [] \<Rightarrow> []
      | x # rest \<Rightarrow> [foldl (\<lambda>best y. if key best < key y then y else best) x rest])"

text \<open>
  The local function \<open>similarity\<close> of \<open>_inflect\<close>, with the grammemes it closes over
  as its first argument.
\<close>

definition similarity :: "string set \<Rightarrow> Parse \<Rightarrow> nat" where
  "similarity gs f = card (gs \<inter> grammemes (tag f))"

definition MorphAnalyzer_inflect ::
  "'s MorphAnalyzer \<Rightarrow> Parse \<Rightarrow> string set \<Rightarrow> error + Parse list" where
  "MorphAnalyzer_inflect m form required_grammemes =
     (let gs = Tag_updated_grammemes (dictionary m) (tag form) required_grammemes in
      bind (MorphAnalyzer_get_lexeme m form) (\<lambda>lexeme.
        let possible_results =
              filter (\<lambda>f. required_grammemes \<subseteq> grammemes (tag f)) lexeme
        in Inr (nlargest1 (similarity gs) possible_results)))"

definition Parse_inflect :: "'s MorphAnalyzer \<Rightarrow> Parse \<Rightarrow> string set \<Rightarrow> error + Parse option" where
  "Parse_inflect m self required_grammemes =
     bind (MorphAnalyzer_inflect m self required_grammemes) (\<lambda>res.
       Inr (case res of [] \<Rightarrow> None | r # rest \<Rightarrow> Some r))"

definition Parse_normalized :: "'s MorphAnalyzer \<Rightarrow> Parse \<Rightarrow> error + Parse" where
  "Parse_normalized m self =
     (if methods self = [] then Inl IndexError
      else
        bind (component_normalized m (fst (last (methods self))) self) (\<lambda>p.
          Inr (Parse_new p)))"

definition MorphAnalyzer_word_is_known :: "'s MorphAnalyzer \<Rightarrow> ustring \<Rightarrow> bool \<Rightarrow> bool" where
  "MorphAnalyzer_word_is_known m w strict_ee = Dictionary_word_is_known (dictionary m) w strict_ee"

section \<open>The lexicon store, from its contract\<close>

text \<open>
  The words DAWG (\<open>pymorphy2.dawg.WordsDawg\<close> over the DAWG library) is not in
  \<open>analyzer.py\<close>. The three definitions below give a store over a lexicon, a list of
  keys with the \<open>(para_id, idx)\<close> values attached to each, after the contract of the
  Fuzzy Lexicon Store.
\<close>

text \<open>
  Modelled from the spec: the spellings reachable from a word by applying the
  substitution rules to zero or more of its letters (the compiled rules and the
  walk of the DAWG are missing); the word itself comes first.
\<close>

fun variants :: "replaces \<Rightarrow> ustring \<Rightarrow> ustring list" where
  "variants rules [] = [[]]"
| "variants rules (c # cs) =
     map ((#) c) (variants rules cs) @
     (case map_of rules c of
        None \<Rightarrow> []
      | Some c' \<Rightarrow> map ((#) c') (variants rules cs))"

text \<open>
  Modelled from the spec: \<open>lookup_similar\<close>, the pairs of a reachable spelling that
  is a key of the lexicon and the values attached to it (the DAWG's \<open>similar_items\<close>
  is missing).
\<close>

definition lexicon_items ::
  "(ustring \<times> (nat \<times> nat) list) list \<Rightarrow> ustring \<Rightarrow> replaces \<Rightarrow> (ustring \<times> (nat \<times> nat) list) list" where
  "lexicon_items lexicon w rules =
     concat (map (\<lambda>k. case map_of lexicon k of None \<Rightarrow> [] | Some vs \<Rightarrow> [(k, vs)])
       (variants rules w))"

text \<open>
  Modelled from the spec: the store itself (the class \<open>WordsDawg\<close> is missing). The
  exact-membership test applies no substitution; the flat lookup and the key lookup
  are the values and the keys of \<open>lookup_similar\<close>; compiling the rules keeps them.
\<close>

definition lexicon_store :: "(ustring \<times> (nat \<times> nat) list) list \<Rightarrow> WordsDawg" where
  "lexicon_store lexicon =
     \<lparr> contains = (\<lambda>w. map_of lexicon w \<noteq> None),
       similar_items = lexicon_items lexicon,
       similar_item_values = (\<lambda>w rules. map snd (lexicon_items lexicon w rules)),
       similar_keys = (\<lambda>w rules. map fst (lexicon_items lexicon w rules)),
       compile_replaces = (\<lambda>rules. rules) \<rparr>"

section \<open>Notions used in the statements\<close>

text \<open>
  Slot \<open>i\<close> of a paradigm array decodes when the reads of \<open>build_stem\<close> are in range;
  then these are its prefix and its suffix.
\<close>

definition slot_ok :: "Dictionary \<Rightarrow> nat list \<Rightarrow> nat \<Rightarrow> bool" where
  "slot_ok d paradigm i \<longleftrightarrow>
     length paradigm div 3 * 2 + i < length paradigm \<and>
     paradigm ! (length paradigm div 3 * 2 + i) < length (paradigm_prefixes d) \<and>
     paradigm ! i < length (suffixes d)"

definition slot_prefix :: "Dictionary \<Rightarrow> nat list \<Rightarrow> nat \<Rightarrow> ustring" where
  "slot_prefix d paradigm i = paradigm_prefixes d ! (paradigm ! (length paradigm div 3 * 2 + i))"

definition slot_suffix :: "Dictionary \<Rightarrow> nat list \<Rightarrow> nat \<Rightarrow> ustring" where
  "slot_suffix d paradigm i = suffixes d ! (paradigm ! i)"

text \<open>
  The state \<open>(res, seen)\<close> after the given units have all run in order, with no
  early exit; \<open>acc_after call us k\<close> is the accumulator once units \<open>0..k\<close> have run
  from the empty state, and \<open>unit_output call us k\<close> is what unit \<open>k\<close> itself returns
  then.
\<close>

fun feed_units ::
  "('s AnalyzerUnit \<Rightarrow> 's set \<Rightarrow> 'a list \<times> 's set) \<Rightarrow> 's AnalyzerUnit list
     \<Rightarrow> 'a list \<times> 's set \<Rightarrow> 'a list \<times> 's set" where
  "feed_units call [] st = st"
| "feed_units call (u # us) (res, seen) =
     (case call u seen of (out, seen') \<Rightarrow> feed_units call us (res @ out, seen'))"

definition acc_after ::
  "('s AnalyzerUnit \<Rightarrow> 's set \<Rightarrow> 'a list \<times> 's set) \<Rightarrow> 's AnalyzerUnit list \<Rightarrow> nat \<Rightarrow> 'a list" where
  "acc_after call us k = fst (feed_units call (take (Suc k) us) ([], {}))"

definition unit_output ::
  "('s AnalyzerUnit \<Rightarrow> 's set \<Rightarrow> 'a list \<times> 's set) \<Rightarrow> 's AnalyzerUnit list \<Rightarrow> nat \<Rightarrow> 'a list" where
  "unit_output call us k = fst (call (us ! k) (snd (feed_units call (take k us) ([], {}))))"

section \<open>A small dictionary\<close>

text \<open>
  Three paradigms over the suffixes \<open>""\<close>, \<open>a\<close>, \<open>i\<close>, \<open>yj\<close>, \<open>ee\<close>, \<open>o\<close>, \<open>e\<close> and the prefixes
  \<open>""\<close>, \<open>po\<close> (Cyrillic code points): a feminine noun with the slots \<open>-a\<close>, \<open>-i\<close>,
  the bare stem and \<open>-e\<close>; an adjective with the slots \<open>-yj\<close> and \<open>po-...-ee\<close>; a neuter noun with
  the slots \<open>-o\<close> and \<open>-a\<close>.
\<close>

definition demo_gramtab :: "Tag list" where
  "demo_gramtab =
     [\<lparr> raw = ''NOUN sing,nomn'', grammemes = {''NOUN'', ''sing'', ''nomn''} \<rparr>,
      \<lparr> raw = ''NOUN plur,nomn'', grammemes = {''NOUN'', ''plur'', ''nomn''} \<rparr>,
      \<lparr> raw = ''NOUN plur,gent'', grammemes = {''NOUN'', ''plur'', ''gent''} \<rparr>,
      \<lparr> raw = ''ADJF'', grammemes = {''ADJF''} \<rparr>,
      \<lparr> raw = ''COMP'', grammemes = {''COMP''} \<rparr>,
      \<lparr> raw = ''NOUN sing,datv'', grammemes = {''NOUN'', ''sing'', ''datv''} \<rparr>]"

definition demo_lexicon :: "(ustring \<times> (nat \<times> nat) list) list" where
  "demo_lexicon =
     [([1082, 1085, 1080, 1075, 1072], [(0, 0)]),
      ([1082, 1085, 1080, 1075, 1080], [(0, 1)]),
      ([1082, 1085, 1080, 1075], [(0, 2)]),
      ([1082, 1085, 1080, 1075, 1077], [(0, 3)]),
      ([1105, 1083, 1082, 1072], [(0, 0)]),
      ([1085, 1077, 1073, 1086], [(2, 0)]),
      ([1085, 1105, 1073, 1086], [(2, 0)]),
      ([1085, 1086, 1074, 1099, 1081], [(1, 0)]),
      ([1087, 1086, 1085, 1086, 1074, 1077, 1077], [(1, 1)])]"

definition demo_data :: LoadedDictionary where
  "demo_data =
     \<lparr> paradigms =
         [[1, 2, 0, 6, 0, 1, 2, 5, 0, 0, 0, 0], [3, 4, 3, 4, 0, 1], [5, 1, 0, 1, 0, 0]],
       gramtab = demo_gramtab,
       paradigm_prefixes = [[], [1087, 1086]],
       suffixes = [[], [1072], [1080], [1099, 1081], [1077, 1077], [1086], [1077]],
       words = lexicon_store demo_lexicon,
       Tag_updated_grammemes = (\<lambda>t required. grammemes t \<union> required) \<rparr>"

definition demo_dict :: Dictionary where
  "demo_dict = Dictionary_init 7 demo_data"

text \<open>
  What holds of the state of the loops of \<open>Dictionary.parse\<close> at every moment: each
  record built so far has its normal form in the memo under its \<open>para_id\<close>, a chain
  of the one step of this dictionary with the record's word, the tag of its slot, and
  the estimate 1.
\<close>

definition memo_ok :: "Dictionary \<Rightarrow> Parse list \<times> (nat \<rightharpoonup> ustring) \<Rightarrow> bool" where
  "memo_ok d st \<longleftrightarrow>
     (\<forall>r \<in> set (fst st).
        snd st (para_id r) = Some (normal_form r) \<and>
        methods r = [(self_id d, word r)] \<and>
        build_tag_info d (para_id r) (idx r) = Inr (tag r) \<and>
        estimate r = 1)"

text \<open>
  Two records of the small dictionary (the plural and the dative of paradigm 0), the
  lexeme of paradigm 0 under a given chain, and the plural record with a chain whose
  only step names another object.
\<close>

definition demo_form :: Parse where
  "demo_form =
     \<lparr> word = [1082, 1085, 1080, 1075, 1080], tag = demo_gramtab ! 1,
       normal_form = [1082, 1085, 1080, 1075, 1072], para_id = 0, idx = 1, estimate = 1,
       methods = [(7, [1082, 1085, 1080, 1075, 1080])] \<rparr>"

definition dative_form :: Parse where
  "dative_form =
     \<lparr> word = [1082, 1085, 1080, 1075, 1077], tag = demo_gramtab ! 5,
       normal_form = [1082, 1085, 1080, 1075, 1072], para_id = 0, idx = 3, estimate = 1,
       methods = [(7, [1082, 1085, 1080, 1075, 1077])] \<rparr>"

definition demo_lexeme :: "(obj_id \<times> ustring) list \<Rightarrow> Parse list" where
  "demo_lexeme ms =
     [\<lparr> word = [1082, 1085, 1080, 1075, 1072], tag = demo_gramtab ! 0,
         normal_form = [1082, 1085, 1080, 1075, 1072], para_id = 0, idx = 0, estimate = 1,
         methods = ms \<rparr>,
      \<lparr> word = [1082, 1085, 1080, 1075, 1080], tag = demo_gramtab ! 1,
         normal_form = [1082, 1085, 1080, 1075, 1072], para_id = 0, idx = 1, estimate = 1,
         methods = ms \<rparr>,
      \<lparr> word = [1082, 1085, 1080, 1075], tag = demo_gramtab ! 2,
         normal_form = [1082, 1085, 1080, 1075, 1072], para_id = 0, idx = 2, estimate = 1,
         methods = ms \<rparr>,
      \<lparr> word = [1082, 1085, 1080, 1075, 1077], tag = demo_gramtab ! 5,
         normal_form = [1082, 1085, 1080, 1075, 1072], para_id = 0, idx = 3, estimate = 1,
         methods = ms \<rparr>]"

definition foreign_form :: Parse where
  "foreign_form = demo_form \<lparr> methods := [(8, [1082, 1085, 1080, 1075, 1080])] \<rparr>"

text \<open>An analyzer over the small dictionary, with the given units.\<close>

definition demo_morph :: "nat AnalyzerUnit list \<Rightarrow> nat MorphAnalyzer" where
  "demo_morph us = \<lparr> dictionary = demo_dict, result_type = True, units = us \<rparr>"

text \<open>
  The pipeline stops after unit \<open>k\<close> when the unit is terminal and the accumulator is
  not empty once it has run. \<open>trace_ok call us invoked\<close> says that \<open>invoked\<close> is the
  trace of a pipeline that obeys this: the units are invoked in order from the first
  one; after an invoked unit that is not the last, the next one is invoked exactly
  when the pipeline does not stop there; and an invoked terminal unit that itself
  returned a result is the last one invoked.
\<close>

definition stops_after ::
  "('s AnalyzerUnit \<Rightarrow> 's set \<Rightarrow> 'a list \<times> 's set) \<Rightarrow> 's AnalyzerUnit list \<Rightarrow> nat \<Rightarrow> bool" where
  "stops_after call us k \<longleftrightarrow> terminal (us ! k) \<and> acc_after call us k \<noteq> []"

definition trace_ok ::
  "('s AnalyzerUnit \<Rightarrow> 's set \<Rightarrow> 'a list \<times> 's set) \<Rightarrow> 's AnalyzerUnit list \<Rightarrow> nat list \<Rightarrow> bool" where
  "trace_ok call us invoked \<longleftrightarrow>
     invoked = [0..<length invoked] \<and>
     length invoked \<le> length us \<and>
     (us \<noteq> [] \<longrightarrow> invoked \<noteq> []) \<and>
     (\<forall>k. k < length invoked \<and> Suc k < length us \<longrightarrow>
        (Suc k < length invoked \<longleftrightarrow> \<not> stops_after call us k)) \<and>
     (\<forall>k. k < length invoked \<and> terminal (us ! k) \<and> unit_output call us k \<noteq> [] \<longrightarrow>
        length invoked = Suc k)"

text \<open>
  A unit that returns fixed lists and records its identity in \<open>seen\<close>; two pipelines
  of three such units.
\<close>

definition demo_unit :: "obj_id \<Rightarrow> bool \<Rightarrow> Parse list \<Rightarrow> Tag list \<Rightarrow> nat AnalyzerUnit" where
  "demo_unit oid term ps ts =
     \<lparr> unit_id = oid, terminal = term,
       unit_parse = (\<lambda>w seen. (ps, insert oid seen)),
       unit_tag = (\<lambda>w seen. (ts, insert oid seen)),
       unit_get_lexeme = (\<lambda>form ms. Inr [form]),
       unit_normalized = (\<lambda>form. Inr form) \<rparr>"

definition silent_terminal_units :: "nat AnalyzerUnit list" where
  "silent_terminal_units =
     [demo_unit 1 False [demo_form] [tag demo_form],
      demo_unit 2 True [] [],
      demo_unit 3 False [foreign_form] [tag foreign_form]]"

definition firing_terminal_units :: "nat AnalyzerUnit list" where
  "firing_terminal_units =
     [demo_unit 1 False [] [],
      demo_unit 2 True [demo_form] [tag demo_form],
      demo_unit 3 False [foreign_form] [tag foreign_form]]"

section \<open>Basic facts\<close>

lemma bind_Inr [simp]: "bind (Inr v) f = f v"
  by (simp add: bind_def)

lemma bind_Inl [simp]: "bind (Inl e) f = Inl e"
  by (simp add: bind_def)

lemma bind_eq_Inr: "bind m f = Inr y \<longleftrightarrow> (\<exists>v. m = Inr v \<and> f v = Inr y)"
  by (cases m) simp_all

lemma getitem_eq_Inr: "getitem xs i = Inr v \<longleftrightarrow> i < length xs \<and> v = xs ! i"
  by (auto simp: getitem_def)

lemma getitem_in_range: "i < length xs \<Longrightarrow> getitem xs i = Inr (xs ! i)"
  by (simp add: getitem_def)

lemmas demo_simps = demo_dict_def Dictionary_init_def demo_data_def demo_gramtab_def
  demo_lexicon_def lexicon_store_def lexicon_items_def cyr_ie_def cyr_io_def

section \<open>Stems and normal forms\<close>

lemma build_stem_ok:
  assumes "slot_ok d paradigm i"
  shows "build_stem d paradigm i w =
    Inr (drop (length (slot_prefix d paradigm i))
           (take (length w - length (slot_suffix d paradigm i)) w))"
  using assms
  by (simp add: build_stem_def slot_ok_def slot_prefix_def slot_suffix_def getitem_in_range Let_def)

lemma build_stem_fail:
  assumes "\<not> slot_ok d paradigm i"
  shows "build_stem d paradigm i w = Inl IndexError"
  using assms
  by (auto simp: build_stem_def slot_ok_def getitem_def Let_def)

text \<open>
  Claim C2, as the specification states it: the stem operation fails whenever the
  word is shorter than the slot's prefix and suffix together, or does not begin with
  that prefix and end with that suffix. The code does not look at the letters of the
  word: on the slot with the prefix \<open>po\<close> and the suffix \<open>ee\<close>, the one-letter word
  \<open>p\<close> gives the empty stem, and a six-letter word that carries neither affix gives
  its two middle letters.
\<close>

theorem build_stem_no_check_counterexample:
  "slot_ok demo_dict [3, 4, 3, 4, 0, 1] 1 \<and>
   slot_prefix demo_dict [3, 4, 3, 4, 0, 1] 1 = [1087, 1086] \<and>
   slot_suffix demo_dict [3, 4, 3, 4, 0, 1] 1 = [1077, 1077] \<and>
   build_stem demo_dict [3, 4, 3, 4, 0, 1] 1 [1087] = Inr [] \<and>
   build_stem demo_dict [3, 4, 3, 4, 0, 1] 1 [1, 2, 3, 4, 5, 6] = Inr [3, 4]"
  by (simp add: build_stem_def getitem_def slot_ok_def slot_prefix_def slot_suffix_def demo_simps)

text \<open>
  Claim C2, amended: for every paradigm array, slot index and word, the stem
  operation succeeds whenever the slot and its prefix and suffix ids are in range,
  whatever the word is; it returns the word without its first \<open>len(prefix)\<close> and its
  last \<open>len(suffix)\<close> letters (nothing when the word is too short), which is the stem
  of a word that is prefix, stem and suffix in a row. It fails, with \<open>IndexError\<close>,
  exactly when the slot or one of its ids is out of range.
\<close>

theorem build_stem_by_lengths:
  "build_stem d paradigm i w =
     (if slot_ok d paradigm i
      then Inr (drop (length (slot_prefix d paradigm i))
                  (take (length w - length (slot_suffix d paradigm i)) w))
      else Inl IndexError) \<and>
   (slot_ok d paradigm i \<longrightarrow>
      build_stem d paradigm i (slot_prefix d paradigm i @ stem @ slot_suffix d paradigm i) =
        Inr stem)"
  by (simp add: build_stem_ok build_stem_fail)

theorem build_stem_by_lengths_witness:
  "build_stem demo_dict [3, 4, 3, 4, 0, 1] 1 [1087, 1086, 1085, 1086, 1074, 1077, 1077] =
     Inr [1085, 1086, 1074] \<and>
   build_stem demo_dict [3, 4, 3, 4, 0, 1] 1 [1, 2, 3, 4, 5, 6] = Inr [3, 4] \<and>
   build_stem demo_dict [3, 4, 3, 4, 0, 1] 2 [1, 2, 3, 4, 5, 6] = Inl IndexError"
  using
    build_stem_by_lengths
      [of demo_dict "[3, 4, 3, 4, 0, 1]" 1 "[1087, 1086, 1085, 1086, 1074, 1077, 1077]" "[]"]
    build_stem_by_lengths [of demo_dict "[3, 4, 3, 4, 0, 1]" 1 "[1, 2, 3, 4, 5, 6]" "[]"]
    build_stem_by_lengths [of demo_dict "[3, 4, 3, 4, 0, 1]" 2 "[1, 2, 3, 4, 5, 6]" "[]"]
  by (simp add: slot_ok_def slot_prefix_def slot_suffix_def demo_simps)

text \<open>
  Claim C8: for a paradigm whose slot \<open>i\<close> and slot 0 decode, the normal form at slot
  0 is the word unchanged; at a slot \<open>i > 0\<close> it is slot 0's prefix, then the word
  with \<open>len(prefix of i)\<close> letters removed on the left and \<open>len(suffix of i)\<close> on the
  right, then slot 0's suffix, so that a word made of slot \<open>i\<close>'s prefix, a stem and
  slot \<open>i\<close>'s suffix gives slot 0's prefix, that stem and slot 0's suffix; and with
  an empty suffix at slot \<open>i\<close> only the prefix is removed.
\<close>

theorem build_normal_form_reconstruction:
  assumes "pid < length (paradigms d)"
    and "slot_ok d (paradigms d ! pid) i"
    and "slot_ok d (paradigms d ! pid) 0"
  shows "build_normal_form d pid 0 w = Inr w \<and>
    (0 < i \<longrightarrow>
       build_normal_form d pid i w =
         Inr (slot_prefix d (paradigms d ! pid) 0 @
              drop (length (slot_prefix d (paradigms d ! pid) i))
                (take (length w - length (slot_suffix d (paradigms d ! pid) i)) w) @
              slot_suffix d (paradigms d ! pid) 0)) \<and>
    (0 < i \<longrightarrow>
       build_normal_form d pid i
           (slot_prefix d (paradigms d ! pid) i @ stem @ slot_suffix d (paradigms d ! pid) i) =
         Inr (slot_prefix d (paradigms d ! pid) 0 @ stem @ slot_suffix d (paradigms d ! pid) 0)) \<and>
    (0 < i \<and> slot_suffix d (paradigms d ! pid) i = [] \<longrightarrow>
       build_normal_form d pid i w =
         Inr (slot_prefix d (paradigms d ! pid) 0 @
              drop (length (slot_prefix d (paradigms d ! pid) i)) w @
              slot_suffix d (paradigms d ! pid) 0))"
proof -
  let ?p = "paradigms d ! pid"
  have zero: "build_normal_form d pid 0 v = Inr v" for v
    by (simp add: build_normal_form_def)
  have pos: "build_normal_form d pid i v =
      Inr (slot_prefix d ?p 0 @
           drop (length (slot_prefix d ?p i)) (take (length v - length (slot_suffix d ?p i)) v) @
           slot_suffix d ?p 0)" if "0 < i" for v
  proof -
    have "length ?p div 3 * 2 < length ?p"
      "?p ! (length ?p div 3 * 2) < length (paradigm_prefixes d)"
      "0 < length ?p" "?p ! 0 < length (suffixes d)"
      using assms(3) by (auto simp: slot_ok_def)
    then show ?thesis
      using that assms(1)
      by (simp add: build_normal_form_def getitem_in_range build_stem_ok [OF assms(2)]
          slot_prefix_def slot_suffix_def Let_def)
  qed
  show ?thesis
    using zero pos by simp
qed

theorem build_normal_form_reconstruction_witness:
  "build_normal_form demo_dict 1 0 [1085, 1086, 1074, 1099, 1081] =
     Inr [1085, 1086, 1074, 1099, 1081] \<and>
   build_normal_form demo_dict 1 1 [1087, 1086, 1085, 1086, 1074, 1077, 1077] =
     Inr [1085, 1086, 1074, 1099, 1081] \<and>
   build_normal_form demo_dict 0 2 [1082, 1085, 1080, 1075] =
     Inr [1082, 1085, 1080, 1075, 1072]"
proof -
  have a: "1 < length (paradigms demo_dict)" "slot_ok demo_dict (paradigms demo_dict ! 1) 1"
    "slot_ok demo_dict (paradigms demo_dict ! 1) 0"
    by (simp_all add: slot_ok_def demo_simps)
  have b: "0 < length (paradigms demo_dict)" "slot_ok demo_dict (paradigms demo_dict ! 0) 2"
    "slot_ok demo_dict (paradigms demo_dict ! 0) 0"
    by (simp_all add: slot_ok_def demo_simps)
  show ?thesis
    using build_normal_form_reconstruction [OF a, of "[1085, 1086, 1074, 1099, 1081]" "[]"]
      build_normal_form_reconstruction
        [OF a, of "[1087, 1086, 1085, 1086, 1074, 1077, 1077]" "[]"]
      build_normal_form_reconstruction [OF b, of "[1082, 1085, 1080, 1075]" "[]"]
    by (simp add: slot_prefix_def slot_suffix_def demo_simps)
qed

section \<open>Membership in the lexicon\<close>

lemma variants_iff:
  "v \<in> set (variants rules w) \<longleftrightarrow>
     list_all2 (\<lambda>c c'. c' = c \<or> map_of rules c = Some c') w v"
proof (induction w arbitrary: v)
  case Nil
  then show ?case by auto
next
  case (Cons c cs)
  show ?case
  proof (cases v)
    case Nil
    then show ?thesis by (auto split: option.splits)
  next
    case (Cons c' cs')
    then show ?thesis
      using Cons.IH [of cs'] by (auto split: option.splits)
  qed
qed

lemma lexicon_items_empty_iff:
  "lexicon_items lexicon w rules = [] \<longleftrightarrow>
     (\<forall>k \<in> set (variants rules w). map_of lexicon k = None)"
  by (auto simp: lexicon_items_def split: option.splits)

lemma map_of_None_iff_fst: "map_of lexicon k = None \<longleftrightarrow> k \<notin> fst ` set lexicon"
  by (simp add: map_of_eq_None_iff)

text \<open>
  Claim C10: for a dictionary built over a lexicon store, the strict check is true
  exactly when the word as given is a key of the lexicon, and the non-strict check
  is true exactly when the lexicon has a key that differs from the word only where
  the word has the letter U+0435 and the key has U+0451. With a lexicon that stores
  the spelling with U+0451 only, the strict check on the spelling with U+0435 is
  false and the non-strict check is true.
\<close>

theorem word_is_known_strictness:
  assumes "words data = lexicon_store lexicon"
  shows "(Dictionary_word_is_known (Dictionary_init oid data) w True \<longleftrightarrow>
            w \<in> fst ` set lexicon) \<and>
         (Dictionary_word_is_known (Dictionary_init oid data) w False \<longleftrightarrow>
            (\<exists>v \<in> fst ` set lexicon.
               list_all2 (\<lambda>c c'. c' = c \<or> (c = cyr_ie \<and> c' = cyr_io)) w v))"
proof -
  have strict: "Dictionary_word_is_known (Dictionary_init oid data) w True \<longleftrightarrow>
      w \<in> fst ` set lexicon"
    by (simp add: Dictionary_word_is_known_def Dictionary_init_def assms lexicon_store_def
        map_of_None_iff_fst)
  have "Dictionary_word_is_known (Dictionary_init oid data) w False \<longleftrightarrow>
      (\<exists>v \<in> set (variants [(cyr_ie, cyr_io)] w). v \<in> fst ` set lexicon)"
    by (simp add: Dictionary_word_is_known_def Dictionary_init_def assms lexicon_store_def
        lexicon_items_empty_iff map_of_None_iff_fst)
  also have "\<dots> \<longleftrightarrow> (\<exists>v \<in> fst ` set lexicon.
      list_all2 (\<lambda>c c'. c' = c \<or> (c = cyr_ie \<and> c' = cyr_io)) w v)"
  proof -
    have "(\<lambda>c c'. c' = c \<or> map_of [(cyr_ie, cyr_io)] c = Some c') =
        (\<lambda>c c'. c' = c \<or> (c = cyr_ie \<and> c' = cyr_io))"
      by (auto simp: fun_eq_iff)
    then have "v \<in> set (variants [(cyr_ie, cyr_io)] w) \<longleftrightarrow>
        list_all2 (\<lambda>c c'. c' = c \<or> (c = cyr_ie \<and> c' = cyr_io)) w v" for v
      by (simp only: variants_iff)
    then show ?thesis
      by blast
  qed
  finally show ?thesis
    using strict by simp
qed

theorem word_is_known_strictness_witness:
  "\<not> Dictionary_word_is_known demo_dict [1077, 1083, 1082, 1072] True \<and>
   Dictionary_word_is_known demo_dict [1077, 1083, 1082, 1072] False \<and>
   Dictionary_word_is_known demo_dict [1105, 1083, 1082, 1072] True"
proof -
  have w: "words demo_data = lexicon_store demo_lexicon"
    by (simp add: demo_data_def)
  show ?thesis
    unfolding demo_dict_def
    using word_is_known_strictness [OF w, of 7 "[1077, 1083, 1082, 1072]"]
      word_is_known_strictness [OF w, of 7 "[1105, 1083, 1082, 1072]"]
    by (simp add: demo_lexicon_def cyr_ie_def cyr_io_def)
qed

section \<open>The records of \<open>Dictionary.parse\<close>\<close>

lemma parse_parses_memo_ok:
  "parse_parses d fixed_word parses st = Inr st' \<Longrightarrow> memo_ok d st \<Longrightarrow> memo_ok d st'"
proof (induction d fixed_word parses st rule: parse_parses.induct)
  case (1 d fixed_word st)
  then show ?case by simp
next
  case (2 d fixed_word pid i parses res para_normal_forms)
  from "2.prems"(1) obtain nf memo t where
    step: "(case para_normal_forms pid of
              None \<Rightarrow>
                (case build_normal_form d pid i fixed_word of
                   Inl e \<Rightarrow> Inl e
                 | Inr nf \<Rightarrow> Inr (nf, para_normal_forms(pid \<mapsto> nf)))
            | Some nf \<Rightarrow> Inr (nf, para_normal_forms)) = Inr (nf, memo)"
    and t: "build_tag_info d pid i = Inr t"
    and rest: "parse_parses d fixed_word parses
        (res @ [\<lparr> word = fixed_word, tag = t, normal_form = nf, para_id = pid,
                  idx = i, estimate = 1, methods = [(self_id d, fixed_word)] \<rparr>], memo) = Inr st'"
    by (auto split: sum.splits)
  have memo: "memo pid = Some nf"
    and keep: "\<And>q. para_normal_forms q \<noteq> None \<Longrightarrow> memo q = para_normal_forms q"
    using step by (auto split: option.splits sum.splits)
  have "memo_ok d (res @ [\<lparr> word = fixed_word, tag = t, normal_form = nf, para_id = pid,
                  idx = i, estimate = 1, methods = [(self_id d, fixed_word)] \<rparr>], memo)"
    using "2.prems"(2) memo keep t by (auto simp: memo_ok_def)
  with "2.IH" step t rest show ?case
    by blast
qed

lemma parse_items_memo_ok:
  "parse_items d para_data st = Inr st' \<Longrightarrow> memo_ok d st \<Longrightarrow> memo_ok d st'"
proof (induction d para_data st rule: parse_items.induct)
  case (1 d st)
  then show ?case by simp
next
  case (2 d fixed_word parses para_data st)
  then show ?case
    by (auto split: sum.splits dest: parse_parses_memo_ok)
qed

lemma Dictionary_parse_memo_ok:
  assumes "Dictionary_parse d w = Inr res"
  shows "\<exists>memo. memo_ok d (res, memo)"
proof -
  from assms obtain memo where
    "parse_items d (similar_items (words d) w (ee d)) ([], Map.empty) = Inr (res, memo)"
    by (auto simp: Dictionary_parse_def bind_eq_Inr)
  moreover have "memo_ok d ([], Map.empty)"
    by (simp add: memo_ok_def)
  ultimately show ?thesis
    using parse_items_memo_ok by blast
qed

text \<open>
  Claim C4: any two records of one \<open>Dictionary.parse\<close> call with the same \<open>para_id\<close>
  carry the same normal form, whatever corrected spellings and slots they come from:
  the normal form is computed for the first record of a \<open>para_id\<close> and reused for
  the later ones.
\<close>

theorem parse_normal_form_consistency:
  assumes "Dictionary_parse d w = Inr res"
    and "r1 \<in> set res" and "r2 \<in> set res"
    and "para_id r1 = para_id r2"
  shows "normal_form r1 = normal_form r2"
proof -
  obtain memo where "memo_ok d (res, memo)"
    using Dictionary_parse_memo_ok [OF assms(1)] by blast
  then have "memo (para_id r1) = Some (normal_form r1)" "memo (para_id r2) = Some (normal_form r2)"
    using assms(2,3) by (auto simp: memo_ok_def)
  then show ?thesis
    using assms(4) by simp
qed

lemma demo_parse_nebo:
  "Dictionary_parse demo_dict [1085, 1077, 1073, 1086] =
     Inr [\<lparr> word = [1085, 1077, 1073, 1086], tag = demo_gramtab ! 0,
             normal_form = [1085, 1077, 1073, 1086], para_id = 2, idx = 0, estimate = 1,
             methods = [(7, [1085, 1077, 1073, 1086])] \<rparr>,
          \<lparr> word = [1085, 1105, 1073, 1086], tag = demo_gramtab ! 0,
             normal_form = [1085, 1077, 1073, 1086], para_id = 2, idx = 0, estimate = 1,
             methods = [(7, [1085, 1105, 1073, 1086])] \<rparr>]"
  by (simp add: Dictionary_parse_def build_normal_form_def build_tag_info_def getitem_def
      demo_simps)

theorem parse_normal_form_consistency_witness:
  "Dictionary_parse demo_dict [1085, 1077, 1073, 1086] =
     Inr [\<lparr> word = [1085, 1077, 1073, 1086], tag = demo_gramtab ! 0,
             normal_form = [1085, 1077, 1073, 1086], para_id = 2, idx = 0, estimate = 1,
             methods = [(7, [1085, 1077, 1073, 1086])] \<rparr>,
          \<lparr> word = [1085, 1105, 1073, 1086], tag = demo_gramtab ! 0,
             normal_form = [1085, 1077, 1073, 1086], para_id = 2, idx = 0, estimate = 1,
             methods = [(7, [1085, 1105, 1073, 1086])] \<rparr>] \<and>
   normal_form \<lparr> word = [1085, 1077, 1073, 1086], tag = demo_gramtab ! 0,
             normal_form = [1085, 1077, 1073, 1086], para_id = 2, idx = 0, estimate = 1,
             methods = [(7, [1085, 1077, 1073, 1086])] \<rparr> =
   normal_form \<lparr> word = [1085, 1105, 1073, 1086], tag = demo_gramtab ! 0,
             normal_form = [1085, 1077, 1073, 1086], para_id = 2, idx = 0, estimate = 1,
             methods = [(7, [1085, 1105, 1073, 1086])] \<rparr>"
  using demo_parse_nebo parse_normal_form_consistency [OF demo_parse_nebo]
  by simp

section \<open>Lexemes\<close>

lemma for_append_eq_Inr:
  "for_append f xs res = Inr ys \<longleftrightarrow>
     (\<exists>zs. ys = res @ zs \<and> list_all2 (\<lambda>x z. f x = Inr z) xs zs)"
proof (induction xs arbitrary: res)
  case Nil
  then show ?case by auto
next
  case (Cons x xs)
  show ?case
  proof (cases "f x")
    case (Inl e)
    then show ?thesis by (auto simp: list_all2_Cons1)
  next
    case (Inr y)
    then show ?thesis
      by (auto simp: Cons.IH list_all2_Cons1)
  qed
qed

lemma build_paradigm_info_slots:
  assumes "build_paradigm_info d pid = Inr info"
  shows "pid < length (paradigms d) \<and>
    length info = length (paradigms d ! pid) div 3 \<and>
    (\<forall>i < length info.
       slot_ok d (paradigms d ! pid) i \<and>
       fst (info ! i) = slot_prefix d (paradigms d ! pid) i \<and>
       build_tag_info d pid i = Inr (fst (snd (info ! i))) \<and>
       snd (snd (info ! i)) = slot_suffix d (paradigms d ! pid) i)"
proof -
  let ?p = "paradigms d ! pid"
  let ?n = "length ?p div 3"
  let ?f = "\<lambda>i.
         bind (getitem ?p (?n * 2 + i)) (\<lambda>prefix_id.
         bind (getitem (paradigm_prefixes d) prefix_id) (\<lambda>prefix.
         bind (getitem ?p i) (\<lambda>suffix_id.
         bind (getitem (suffixes d) suffix_id) (\<lambda>suffix.
         bind (build_tag_info d pid i) (\<lambda>t.
           Inr (prefix, t, suffix))))))"
  from assms have pid: "pid < length (paradigms d)"
    and loop: "for_append ?f [0..<?n] [] = Inr info"
    by (auto simp: build_paradigm_info_def bind_eq_Inr getitem_eq_Inr Let_def)
  from loop have all: "list_all2 (\<lambda>x z. ?f x = Inr z) [0..<?n] info"
    by (simp add: for_append_eq_Inr)
  then have len: "length info = ?n"
    by (auto dest: list_all2_lengthD)
  have "slot_ok d ?p i \<and> fst (info ! i) = slot_prefix d ?p i \<and>
       build_tag_info d pid i = Inr (fst (snd (info ! i))) \<and>
       snd (snd (info ! i)) = slot_suffix d ?p i" if "i < length info" for i
  proof -
    from all that len have "?f ([0..<?n] ! i) = Inr (info ! i)"
      by (auto simp: list_all2_conv_all_nth)
    with that len have "?f i = Inr (info ! i)"
      by simp
    then show ?thesis
      by (cases "info ! i")
        (auto simp: bind_eq_Inr getitem_eq_Inr slot_ok_def slot_prefix_def slot_suffix_def)
  qed
  with pid len show ?thesis
    by blast
qed

lemma Dictionary_get_lexeme_records:
  assumes "Dictionary_get_lexeme d form ms = Inr lexeme"
  shows "\<exists>stem info.
    (ms = [] \<or> fst (hd ms) = self_id d) \<and>
    para_id form < length (paradigms d) \<and>
    build_stem d (paradigms d ! para_id form) (idx form) (word form) = Inr stem \<and>
    build_paradigm_info d (para_id form) = Inr info \<and>
    length lexeme = length info \<and>
    (\<forall>i < length info.
       lexeme ! i =
         \<lparr> word = fst (info ! i) @ stem @ snd (snd (info ! i)), tag = fst (snd (info ! i)),
           normal_form = normal_form form, para_id = para_id form, idx = i,
           estimate = estimate form, methods = methods form \<rparr>)"
proof -
  from assms have own: "ms = [] \<or> fst (hd ms) = self_id d"
    by (cases ms) (auto simp: Dictionary_get_lexeme_def split: if_splits)
  from assms obtain stem info where
    pid: "para_id form < length (paradigms d)"
    and stem: "build_stem d (paradigms d ! para_id form) (idx form) (word form) = Inr stem"
    and info: "build_paradigm_info d (para_id form) = Inr info"
    and lex: "lexeme = map (\<lambda>(index, (prefix, t, suffix)).
                 \<lparr> word = prefix @ stem @ suffix, tag = t, normal_form = normal_form form,
                   para_id = para_id form, idx = index, estimate = estimate form,
                   methods = methods form \<rparr>)
               (enumerate 0 info)"
    by (auto simp: Dictionary_get_lexeme_def bind_eq_Inr getitem_eq_Inr split: if_splits)
  have "lexeme ! i =
         \<lparr> word = fst (info ! i) @ stem @ snd (snd (info ! i)), tag = fst (snd (info ! i)),
           normal_form = normal_form form, para_id = para_id form, idx = i,
           estimate = estimate form, methods = methods form \<rparr>" if "i < length info" for i
    using that by (simp add: lex nth_enumerate_eq case_prod_beta)
  moreover have "length lexeme = length info"
    by (simp add: lex)
  ultimately show ?thesis
    using own pid stem info by blast
qed

text \<open>
  Claim C6: for every record and chain that \<open>Dictionary.get_lexeme\<close> accepts, the
  list returned has as many records as the paradigm has slots, the record at
  position \<open>i\<close> being the one of slot \<open>i\<close>; each has the \<open>para_id\<close> of the input record,
  a word whose stem at its own slot is the stem of the input record, and the normal
  form, the estimate and the derivation chain of the input record.
\<close>

theorem get_lexeme_closure:
  assumes "Dictionary_get_lexeme d form ms = Inr lexeme"
  shows "length lexeme = length (paradigms d ! para_id form) div 3 \<and>
    (\<forall>i < length lexeme.
       para_id (lexeme ! i) = para_id form \<and>
       idx (lexeme ! i) = i \<and>
       build_stem d (paradigms d ! para_id form) i (word (lexeme ! i)) =
         build_stem d (paradigms d ! para_id form) (idx form) (word form) \<and>
       normal_form (lexeme ! i) = normal_form form \<and>
       estimate (lexeme ! i) = estimate form \<and>
       methods (lexeme ! i) = methods form)"
proof -
  let ?p = "paradigms d ! para_id form"
  from Dictionary_get_lexeme_records [OF assms] obtain stem info where
    stem: "build_stem d ?p (idx form) (word form) = Inr stem"
    and info: "build_paradigm_info d (para_id form) = Inr info"
    and len: "length lexeme = length info"
    and rec: "\<And>i. i < length info \<Longrightarrow> lexeme ! i =
         \<lparr> word = fst (info ! i) @ stem @ snd (snd (info ! i)), tag = fst (snd (info ! i)),
           normal_form = normal_form form, para_id = para_id form, idx = i,
           estimate = estimate form, methods = methods form \<rparr>"
    by blast
  note slots = build_paradigm_info_slots [OF info]
  have "build_stem d ?p i (word (lexeme ! i)) = Inr stem" if "i < length info" for i
  proof -
    from slots that have ok: "slot_ok d ?p i"
      and pre: "fst (info ! i) = slot_prefix d ?p i"
      and suf: "snd (snd (info ! i)) = slot_suffix d ?p i"
      by auto
    show ?thesis
      by (simp add: rec [OF that] pre suf build_stem_ok [OF ok])
  qed
  then show ?thesis
    using slots len rec stem by simp
qed

lemma demo_get_lexeme:
  "Dictionary_get_lexeme demo_dict demo_form (methods demo_form) =
     Inr (demo_lexeme (methods demo_form))"
  by (simp add: Dictionary_get_lexeme_def build_paradigm_info_def build_stem_def
      build_tag_info_def getitem_def demo_form_def demo_lexeme_def demo_simps upt_rec
      enumerate_eq_zip)

theorem get_lexeme_closure_witness:
  "Dictionary_get_lexeme demo_dict demo_form (methods demo_form) =
     Inr (demo_lexeme (methods demo_form)) \<and>
   length (paradigms demo_dict ! para_id demo_form) div 3 = 4 \<and>
   build_stem demo_dict (paradigms demo_dict ! para_id demo_form) 2 [1082, 1085, 1080, 1075] =
     build_stem demo_dict (paradigms demo_dict ! para_id demo_form) (idx demo_form)
       (word demo_form)"
proof -
  note closure = get_lexeme_closure [OF demo_get_lexeme]
  have "length (paradigms demo_dict ! para_id demo_form) div 3 = 4"
    using closure [THEN conjunct1] by (simp add: demo_lexeme_def)
  moreover have
    "build_stem demo_dict (paradigms demo_dict ! para_id demo_form) 2 [1082, 1085, 1080, 1075] =
       build_stem demo_dict (paradigms demo_dict ! para_id demo_form) (idx demo_form)
         (word demo_form)"
    using closure [THEN conjunct2, rule_format, of 2]
    by (simp add: demo_form_def demo_lexeme_def)
  ultimately show ?thesis
    using demo_get_lexeme by simp
qed

text \<open>
  \<open>Dictionary.get_lexeme\<close> returns whenever the chain passes the assertion, the
  paradigm decodes and the slot of the record is one of its slots.
\<close>

lemma Dictionary_get_lexeme_total:
  assumes "ms = [] \<or> fst (hd ms) = self_id d"
    and "build_paradigm_info d (para_id form) = Inr info"
    and "idx form < length info"
  shows "\<exists>lexeme. Dictionary_get_lexeme d form ms = Inr lexeme"
proof -
  note slots = build_paradigm_info_slots [OF assms(2)]
  with assms(3) have "slot_ok d (paradigms d ! para_id form) (idx form)"
    by simp
  then show ?thesis
    using assms(1,2) slots
    by (cases ms) (simp_all add: Dictionary_get_lexeme_def getitem_in_range build_stem_ok)
qed

section \<open>Normalization and ownership of the chain\<close>

lemma Parse_new_id [simp]: "Parse_new p = p"
  by (simp add: Parse_new_def)

lemma wrap_results_id [simp]: "wrap_results m res = res"
  by (simp add: wrap_results_def map_idI)

text \<open>
  The assertion of \<open>Dictionary.get_lexeme\<close>: a chain that is not empty and whose
  first step names another object is refused.
\<close>

lemma Dictionary_get_lexeme_asserts:
  assumes "ms \<noteq> []" and "fst (hd ms) \<noteq> self_id d"
  shows "Dictionary_get_lexeme d form ms = Inl AssertionError"
  using assms by (cases ms) (simp_all add: Dictionary_get_lexeme_def)

text \<open>
  Claim C5: for every record \<open>r\<close> that \<open>Dictionary.parse\<close> returns for a word, when
  the tag of slot 0 of its paradigm can be read, \<open>normalized\<close> (reached through the
  last step of the record's chain) returns a record with the normal form of \<open>r\<close> and
  slot 0: \<open>r\<close> itself when \<open>r\<close> is at slot 0, and otherwise the record whose word is
  the normal form of \<open>r\<close>, with the \<open>para_id\<close> of \<open>r\<close>, the tag of slot 0, and the normal
  form, the estimate and the chain of \<open>r\<close>.
\<close>

theorem normalized_round_trip:
  assumes "Dictionary_parse (dictionary m) w = Inr res"
    and "r \<in> set res"
    and "build_tag_info (dictionary m) (para_id r) 0 = Inr t0"
  shows "\<exists>r'. Parse_normalized m r = Inr r' \<and>
    normal_form r' = normal_form r \<and> idx r' = 0 \<and>
    (idx r = 0 \<longrightarrow> r' = r) \<and>
    (idx r \<noteq> 0 \<longrightarrow>
       word r' = normal_form r \<and> para_id r' = para_id r \<and> tag r' = t0 \<and>
       estimate r' = estimate r \<and> methods r' = methods r)"
proof -
  obtain memo where "memo_ok (dictionary m) (res, memo)"
    using Dictionary_parse_memo_ok [OF assms(1)] by blast
  with assms(2) have chain: "methods r = [(self_id (dictionary m), word r)]"
    by (auto simp: memo_ok_def)
  then have "Parse_normalized m r = Dictionary_normalized (dictionary m) r"
    by (cases "Dictionary_normalized (dictionary m) r")
      (simp_all add: Parse_normalized_def component_normalized_def)
  then show ?thesis
    using assms(3) by (simp add: Dictionary_normalized_def)
qed

lemma demo_parse_knigi:
  "Dictionary_parse demo_dict [1082, 1085, 1080, 1075, 1080] = Inr [demo_form]"
  by (simp add: Dictionary_parse_def build_normal_form_def build_tag_info_def build_stem_def
      getitem_def demo_form_def demo_simps)

theorem normalized_round_trip_witness:
  "Dictionary_parse (dictionary (demo_morph [])) [1082, 1085, 1080, 1075, 1080] = Inr [demo_form] \<and>
   Parse_normalized (demo_morph []) demo_form =
     Inr \<lparr> word = [1082, 1085, 1080, 1075, 1072], tag = demo_gramtab ! 0,
           normal_form = [1082, 1085, 1080, 1075, 1072], para_id = 0, idx = 0, estimate = 1,
           methods = [(7, [1082, 1085, 1080, 1075, 1080])] \<rparr>"
proof -
  have p: "Dictionary_parse (dictionary (demo_morph [])) [1082, 1085, 1080, 1075, 1080] =
      Inr [demo_form]"
    by (simp add: demo_morph_def demo_parse_knigi)
  have r: "demo_form \<in> set [demo_form]"
    by simp
  have t: "build_tag_info (dictionary (demo_morph [])) (para_id demo_form) 0 =
      Inr (demo_gramtab ! 0)"
    by (simp add: demo_morph_def build_tag_info_def getitem_def demo_form_def demo_simps)
  from normalized_round_trip [OF p r t] obtain r' where
    "Parse_normalized (demo_morph []) demo_form = Inr r'"
    "normal_form r' = normal_form demo_form" "idx r' = 0"
    "word r' = normal_form demo_form" "para_id r' = para_id demo_form"
    "tag r' = demo_gramtab ! 0" "estimate r' = estimate demo_form"
    "methods r' = methods demo_form"
    by (auto simp: demo_form_def)
  then show ?thesis
    using p by (cases r') (simp add: demo_form_def)
qed

text \<open>
  Claim C9: a record whose chain is neither empty nor owned by the dictionary must
  make both the lexeme and the normalization of the dictionary fail. On the record
  \<open>foreign_form\<close>, whose chain names the object 8 while the dictionary is the object
  7, \<open>Dictionary.get_lexeme\<close> fails its assertion, and \<open>Dictionary.normalized\<close>,
  which has no such assertion, returns a record.
\<close>

theorem normalized_lacks_ownership_check:
  "methods foreign_form \<noteq> [] \<and>
   fst (hd (methods foreign_form)) \<noteq> self_id demo_dict \<and>
   Dictionary_get_lexeme demo_dict foreign_form (methods foreign_form) = Inl AssertionError \<and>
   Dictionary_normalized demo_dict foreign_form =
     Inr \<lparr> word = [1082, 1085, 1080, 1075, 1072], tag = demo_gramtab ! 0,
           normal_form = [1082, 1085, 1080, 1075, 1072], para_id = 0, idx = 0, estimate = 1,
           methods = [(8, [1082, 1085, 1080, 1075, 1080])] \<rparr>"
  by (simp add: Dictionary_get_lexeme_def Dictionary_normalized_def build_tag_info_def
      getitem_def foreign_form_def demo_form_def demo_simps)

section \<open>The pipeline of units\<close>

lemma feed_units_append:
  "feed_units call (xs @ ys) st = feed_units call ys (feed_units call xs st)"
proof (induction xs arbitrary: st)
  case Nil
  then show ?case by simp
next
  case (Cons u xs)
  then show ?case
    by (cases st) (simp split: prod.splits)
qed

lemma feed_units_take_Suc:
  assumes "k < length us"
  shows "feed_units call (take (Suc k) us) st =
    (case feed_units call (take k us) st of
       (res, seen) \<Rightarrow> (case call (us ! k) seen of (out, seen') \<Rightarrow> (res @ out, seen')))"
  using assms
  by (simp add: take_Suc_conv_app_nth feed_units_append split: prod.splits)

lemma acc_after_unit_output:
  assumes "k < length us"
  shows "acc_after call us k =
    fst (feed_units call (take k us) ([], {})) @ unit_output call us k"
  using assms
  by (simp add: acc_after_def unit_output_def feed_units_take_Suc split: prod.splits)

lemma feed_units_outputs:
  "n \<le> length us \<Longrightarrow>
     fst (feed_units call (take n us) ([], {})) = concat (map (unit_output call us) [0..<n])"
proof (induction n)
  case 0
  then show ?case by simp
next
  case (Suc n)
  then have "n < length us" and "n \<le> length us"
    by simp_all
  then show ?case
    using Suc.IH acc_after_unit_output [of n us call]
    by (simp add: acc_after_def)
qed

lemma run_units_trace:
  assumes "run_units call us k (res, seen, ivk) = (res', seen', ivk')"
  shows "\<exists>n. n \<le> length us \<and> (us \<noteq> [] \<longrightarrow> 0 < n) \<and>
    ivk' = ivk @ [k..<k + n] \<and>
    (res', seen') = feed_units call (take n us) (res, seen) \<and>
    (\<forall>j. Suc j < n \<longrightarrow>
       \<not> (terminal (us ! j) \<and> fst (feed_units call (take (Suc j) us) (res, seen)) \<noteq> [])) \<and>
    (n < length us \<longrightarrow> terminal (us ! (n - 1)) \<and> res' \<noteq> [])"
  using assms
proof (induction us arbitrary: k res seen ivk)
  case Nil
  then show ?case by simp
next
  case (Cons u us)
  obtain out seen1 where call: "call u seen = (out, seen1)"
    by (cases "call u seen")
  show ?case
  proof (cases "res @ out \<noteq> [] \<and> terminal u")
    case True
    with Cons.prems call have "res' = res @ out" "seen' = seen1" "ivk' = ivk @ [k]"
      by auto
    with True call have "1 \<le> length (u # us) \<and> (u # us \<noteq> [] \<longrightarrow> 0 < (1::nat)) \<and>
      ivk' = ivk @ [k..<k + 1] \<and>
      (res', seen') = feed_units call (take 1 (u # us)) (res, seen) \<and>
      (\<forall>j. Suc j < 1 \<longrightarrow>
         \<not> (terminal ((u # us) ! j) \<and>
            fst (feed_units call (take (Suc j) (u # us)) (res, seen)) \<noteq> [])) \<and>
      (1 < length (u # us) \<longrightarrow> terminal ((u # us) ! (1 - 1)) \<and> res' \<noteq> [])"
      by simp
    then show ?thesis
      by blast
  next
    case False
    with Cons.prems call have
      "run_units call us (Suc k) (res @ out, seen1, ivk @ [k]) = (res', seen', ivk')"
      by auto
    from Cons.IH [OF this] obtain n where
      n: "n \<le> length us" "us \<noteq> [] \<longrightarrow> 0 < n"
      and ivk': "ivk' = (ivk @ [k]) @ [Suc k..<Suc k + n]"
      and st: "(res', seen') = feed_units call (take n us) (res @ out, seen1)"
      and go: "\<forall>j. Suc j < n \<longrightarrow>
         \<not> (terminal (us ! j) \<and>
            fst (feed_units call (take (Suc j) us) (res @ out, seen1)) \<noteq> [])"
      and stop: "n < length us \<longrightarrow> terminal (us ! (n - 1)) \<and> res' \<noteq> []"
      by blast
    have "ivk' = ivk @ [k..<k + Suc n]"
      using ivk' by (simp add: upt_conv_Cons)
    moreover have "(res', seen') = feed_units call (take (Suc n) (u # us)) (res, seen)"
      using st call by simp
    moreover have "\<not> (terminal ((u # us) ! j) \<and>
        fst (feed_units call (take (Suc j) (u # us)) (res, seen)) \<noteq> [])" if "Suc j < Suc n" for j
    proof (cases j)
      case 0
      with False call show ?thesis by auto
    next
      case (Suc j')
      with that go call show ?thesis by simp
    qed
    moreover have "terminal ((u # us) ! (Suc n - 1)) \<and> res' \<noteq> []" if "Suc n < length (u # us)"
    proof -
      from that have "n < length us" by simp
      with n stop have "0 < n" "terminal (us ! (n - 1))" "res' \<noteq> []"
        by auto
      then show ?thesis
        by (cases n) simp_all
    qed
    ultimately have "Suc n \<le> length (u # us) \<and> (u # us \<noteq> [] \<longrightarrow> 0 < Suc n) \<and>
      ivk' = ivk @ [k..<k + Suc n] \<and>
      (res', seen') = feed_units call (take (Suc n) (u # us)) (res, seen) \<and>
      (\<forall>j. Suc j < Suc n \<longrightarrow>
         \<not> (terminal ((u # us) ! j) \<and>
            fst (feed_units call (take (Suc j) (u # us)) (res, seen)) \<noteq> [])) \<and>
      (Suc n < length (u # us) \<longrightarrow> terminal ((u # us) ! (Suc n - 1)) \<and> res' \<noteq> [])"
      using n by simp
    then show ?thesis
      by blast
  qed
qed

lemma run_units_trace_ok:
  assumes "run_units call us 0 ([], {}, []) = (res, seen, ivk)"
  shows "trace_ok call us ivk \<and> res = concat (map (unit_output call us) ivk)"
proof -
  from run_units_trace [OF assms] obtain n where
    n: "n \<le> length us" "us \<noteq> [] \<longrightarrow> 0 < n"
    and ivk: "ivk = [0..<n]"
    and st: "(res, seen) = feed_units call (take n us) ([], {})"
    and go: "\<And>j. Suc j < n \<Longrightarrow> \<not> (terminal (us ! j) \<and> acc_after call us j \<noteq> [])"
    and stop: "n < length us \<longrightarrow> terminal (us ! (n - 1)) \<and> res \<noteq> []"
    by (auto simp: acc_after_def)
  have len: "length ivk = n"
    by (simp add: ivk)
  have res: "res = fst (feed_units call (take n us) ([], {}))"
    using st by (metis fst_conv)
  have step: "Suc k < n \<longleftrightarrow> \<not> stops_after call us k" if "k < n" "Suc k < length us" for k
  proof (cases "Suc k < n")
    case True
    with go show ?thesis by (simp add: stops_after_def)
  next
    case False
    with that have "n = Suc k" by simp
    with that stop res have "terminal (us ! k)" "acc_after call us k \<noteq> []"
      by (auto simp: acc_after_def)
    with False show ?thesis by (simp add: stops_after_def)
  qed
  have last: "n = Suc k" if "k < n" "terminal (us ! k)" "unit_output call us k \<noteq> []" for k
  proof (rule ccontr)
    assume "n \<noteq> Suc k"
    with that have "Suc k < n" by simp
    moreover from that n have "acc_after call us k \<noteq> []"
      by (simp add: acc_after_unit_output)
    ultimately show False
      using go that by blast
  qed
  have "trace_ok call us ivk"
    unfolding trace_ok_def len
    using n ivk step last by auto
  moreover have "res = concat (map (unit_output call us) ivk)"
    using res n by (simp add: ivk feed_units_outputs)
  ultimately show ?thesis
    by simp
qed

text \<open>
  The instance of three units: with a first unit that is not terminal and a second
  that is terminal and itself returns a result, the third unit is not invoked.
\<close>

lemma trace_ok_three_units:
  assumes "trace_ok call [u0, u1, u2] invoked"
    and "\<not> terminal u0" and "terminal u1"
    and "unit_output call [u0, u1, u2] 1 \<noteq> []"
  shows "invoked = [0, 1]"
proof -
  let ?us = "[u0, u1, u2]"
  let ?n = "length invoked"
  from assms(1) have shape: "invoked = [0..<?n]" and pos: "0 < ?n"
    and step: "\<And>k. k < ?n \<Longrightarrow> Suc k < length ?us \<Longrightarrow>
      (Suc k < ?n \<longleftrightarrow> \<not> stops_after call ?us k)"
    and last: "\<And>k. k < ?n \<Longrightarrow> terminal (?us ! k) \<Longrightarrow> unit_output call ?us k \<noteq> [] \<Longrightarrow>
      ?n = Suc k"
    unfolding trace_ok_def by (simp, simp, blast, blast)
  have "\<not> stops_after call ?us 0"
    using assms(2) by (simp add: stops_after_def)
  with step [of 0] pos have "1 < ?n"
    by simp
  with last [of 1] assms(3,4) have "?n = 2"
    by simp
  with shape have "invoked = [0..<2]"
    by simp
  then show ?thesis
    by (simp add: upt_rec)
qed

lemma demo_parse_unknown: "Dictionary_parse demo_dict [120] = Inr []"
  by (simp add: Dictionary_parse_def demo_simps)

lemma demo_tag_unknown: "Dictionary_tag demo_dict [120] = Inr []"
  by (simp add: Dictionary_tag_def demo_simps)

text \<open>
  Claim C3: when \<open>Dictionary.parse\<close> returns a non-empty list for a word, the
  analyzer's \<open>parse\<close> returns exactly that list and invokes no unit; and when it
  returns the empty list, the result is made of the outputs of the units invoked, in
  order, and of nothing else. The two kinds of results never share a list.
\<close>

theorem dictionary_result_short_circuits:
  assumes "Dictionary_parse (dictionary m) w = Inr res"
  shows "(res \<noteq> [] \<longrightarrow>
            MorphAnalyzer_parse_traced m w = Inr (res, []) \<and>
            MorphAnalyzer_parse m w = Inr res) \<and>
         (res = [] \<longrightarrow>
            (\<exists>invoked.
               MorphAnalyzer_parse_traced m w =
                 Inr (concat (map (unit_output (\<lambda>u. unit_parse u w) (units m)) invoked),
                      invoked)))"
proof (cases "res = []")
  case False
  with assms show ?thesis
    by (simp add: MorphAnalyzer_parse_def MorphAnalyzer_parse_traced_def)
next
  case True
  obtain res' seen invoked where
    run: "run_units (\<lambda>u. unit_parse u w) (units m) 0 ([], {}, []) = (res', seen, invoked)"
    by (cases "run_units (\<lambda>u. unit_parse u w) (units m) 0 ([], {}, [])") auto
  from run_units_trace_ok [OF run]
  have "res' = concat (map (unit_output (\<lambda>u. unit_parse u w) (units m)) invoked)"
    by simp
  with assms True run show ?thesis
    by (simp add: MorphAnalyzer_parse_traced_def)
qed

theorem dictionary_result_short_circuits_witness:
  "MorphAnalyzer_parse_traced (demo_morph firing_terminal_units)
     [1082, 1085, 1080, 1075, 1080] = Inr ([demo_form], []) \<and>
   MorphAnalyzer_parse (demo_morph firing_terminal_units)
     [1082, 1085, 1080, 1075, 1080] = Inr [demo_form]"
proof -
  have p: "Dictionary_parse (dictionary (demo_morph firing_terminal_units))
      [1082, 1085, 1080, 1075, 1080] = Inr [demo_form]"
    by (simp add: demo_morph_def demo_parse_knigi)
  show ?thesis
    using dictionary_result_short_circuits [OF p] by simp
qed

text \<open>
  Claim C1, amended: in the pipeline of \<open>parse\<close> and of \<open>tag\<close>, entered when the
  dictionary returned nothing, the units are invoked in order from the first; the
  pipeline stops after a unit exactly when that unit is terminal and the accumulator,
  which holds the results of all the units invoked so far, is not empty, and else the
  next unit in order is invoked. In particular a terminal unit that itself returned a
  result is the last one invoked: of \<open>[U0, U1, U2]\<close> with \<open>U0\<close> not terminal and \<open>U1\<close>
  terminal, \<open>U2\<close> is not invoked when \<open>U1\<close> returns a result.
\<close>

theorem pipeline_short_circuit:
  "(Dictionary_parse (dictionary m) w = Inr [] \<longrightarrow>
      (\<exists>res invoked.
         MorphAnalyzer_parse_traced m w = Inr (res, invoked) \<and>
         trace_ok (\<lambda>u. unit_parse u w) (units m) invoked)) \<and>
   (Dictionary_tag (dictionary m) w = Inr [] \<longrightarrow>
      (\<exists>res invoked.
         MorphAnalyzer_tag_traced m w = Inr (res, invoked) \<and>
         trace_ok (\<lambda>u. unit_tag u w) (units m) invoked))"
proof -
  have "\<exists>res invoked.
         MorphAnalyzer_parse_traced m w = Inr (res, invoked) \<and>
         trace_ok (\<lambda>u. unit_parse u w) (units m) invoked"
    if "Dictionary_parse (dictionary m) w = Inr []"
  proof -
    obtain res seen invoked where
      run: "run_units (\<lambda>u. unit_parse u w) (units m) 0 ([], {}, []) = (res, seen, invoked)"
      by (cases "run_units (\<lambda>u. unit_parse u w) (units m) 0 ([], {}, [])") auto
    from run_units_trace_ok [OF run] that run show ?thesis
      by (simp add: MorphAnalyzer_parse_traced_def)
  qed
  moreover have "\<exists>res invoked.
         MorphAnalyzer_tag_traced m w = Inr (res, invoked) \<and>
         trace_ok (\<lambda>u. unit_tag u w) (units m) invoked"
    if "Dictionary_tag (dictionary m) w = Inr []"
  proof -
    obtain res seen invoked where
      run: "run_units (\<lambda>u. unit_tag u w) (units m) 0 ([], {}, []) = (res, seen, invoked)"
      by (cases "run_units (\<lambda>u. unit_tag u w) (units m) 0 ([], {}, [])") auto
    from run_units_trace_ok [OF run] that run show ?thesis
      by (simp add: MorphAnalyzer_tag_traced_def)
  qed
  ultimately show ?thesis
    by blast
qed

lemma demo_firing_parse:
  "MorphAnalyzer_parse_traced (demo_morph firing_terminal_units) [120] = Inr ([demo_form], [0, 1])"
  by (simp add: MorphAnalyzer_parse_traced_def demo_morph_def demo_parse_unknown
      firing_terminal_units_def demo_unit_def)

lemma demo_firing_tag:
  "MorphAnalyzer_tag_traced (demo_morph firing_terminal_units) [120] =
     Inr ([tag demo_form], [0, 1])"
  by (simp add: MorphAnalyzer_tag_traced_def demo_morph_def demo_tag_unknown
      firing_terminal_units_def demo_unit_def)

theorem pipeline_short_circuit_witness:
  "MorphAnalyzer_parse_traced (demo_morph firing_terminal_units) [120] =
     Inr ([demo_form], [0, 1]) \<and>
   trace_ok (\<lambda>u. unit_parse u [120]) (units (demo_morph firing_terminal_units)) [0, 1] \<and>
   MorphAnalyzer_tag_traced (demo_morph firing_terminal_units) [120] =
     Inr ([tag demo_form], [0, 1]) \<and>
   trace_ok (\<lambda>u. unit_tag u [120]) (units (demo_morph firing_terminal_units)) [0, 1]"
proof -
  have p: "Dictionary_parse (dictionary (demo_morph firing_terminal_units)) [120] = Inr []"
    and t: "Dictionary_tag (dictionary (demo_morph firing_terminal_units)) [120] = Inr []"
    by (simp_all add: demo_morph_def demo_parse_unknown demo_tag_unknown)
  show ?thesis
    using pipeline_short_circuit [of "demo_morph firing_terminal_units" "[120]"] p t
      demo_firing_parse demo_firing_tag
    by auto
qed

text \<open>
  Claim C1, as the specification states it: the pipeline stops after a unit exactly
  when the unit is terminal and itself produced a result, so that after a unit that
  produced nothing the next unit is invoked. With a first unit that is not terminal
  and returns a record, a second that is terminal and returns nothing, and a third,
  both \<open>parse\<close> and \<open>tag\<close> stop after the second unit: the test of the loop reads
  the accumulator, not the output of the unit.
\<close>

theorem terminal_unit_without_output_counterexample:
  "length (units (demo_morph silent_terminal_units)) = 3 \<and>
   terminal (units (demo_morph silent_terminal_units) ! 1) \<and>
   unit_output (\<lambda>u. unit_parse u [120]) (units (demo_morph silent_terminal_units)) 1 = [] \<and>
   MorphAnalyzer_parse_traced (demo_morph silent_terminal_units) [120] =
     Inr ([demo_form], [0, 1]) \<and>
   unit_output (\<lambda>u. unit_tag u [120]) (units (demo_morph silent_terminal_units)) 1 = [] \<and>
   MorphAnalyzer_tag_traced (demo_morph silent_terminal_units) [120] =
     Inr ([tag demo_form], [0, 1])"
  by (simp add: MorphAnalyzer_parse_traced_def MorphAnalyzer_tag_traced_def demo_morph_def
      demo_parse_unknown demo_tag_unknown silent_terminal_units_def demo_unit_def
      unit_output_def)

section \<open>Inflection\<close>

lemma nlargest1_snoc:
  assumes "ys \<noteq> []"
  shows "\<exists>b. nlargest1 key ys = [b] \<and>
    nlargest1 key (ys @ [y]) = [if key b < key y then y else b]"
  using assms by (cases ys) (simp_all add: nlargest1_def)

lemma nlargest1_filter_empty:
  "nlargest1 key (filter P xs) = [] \<longleftrightarrow> \<not> (\<exists>x \<in> set xs. P x)"
proof -
  have "nlargest1 key ys = [] \<longleftrightarrow> ys = []" for ys :: "'a list"
    by (cases ys) (simp_all add: nlargest1_def)
  then show ?thesis
    by (auto simp: filter_empty_conv)
qed

lemma nlargest1_filter_first_best:
  assumes "\<exists>x \<in> set xs. P x"
  shows "\<exists>i < length xs. nlargest1 key (filter P xs) = [xs ! i] \<and> P (xs ! i) \<and>
    (\<forall>j < length xs. P (xs ! j) \<longrightarrow> key (xs ! j) \<le> key (xs ! i)) \<and>
    (\<forall>j < i. P (xs ! j) \<longrightarrow> key (xs ! j) < key (xs ! i))"
  using assms
proof (induction xs rule: rev_induct)
  case Nil
  then show ?case by simp
next
  case (snoc y xs)
  let ?n = "length xs"
  show ?case
  proof (cases "\<exists>x \<in> set xs. P x")
    case False
    with snoc.prems have y: "P y" by auto
    from False have none: "filter P xs = []"
      by (simp add: filter_empty_conv)
    have "?n < length (xs @ [y]) \<and> nlargest1 key (filter P (xs @ [y])) = [(xs @ [y]) ! ?n] \<and>
      P ((xs @ [y]) ! ?n) \<and>
      (\<forall>j < length (xs @ [y]). P ((xs @ [y]) ! j) \<longrightarrow> key ((xs @ [y]) ! j) \<le> key ((xs @ [y]) ! ?n)) \<and>
      (\<forall>j < ?n. P ((xs @ [y]) ! j) \<longrightarrow> key ((xs @ [y]) ! j) < key ((xs @ [y]) ! ?n))"
      using y none False by (auto simp: nlargest1_def nth_append less_Suc_eq)
    then show ?thesis by blast
  next
    case True
    from snoc.IH [OF True] obtain i where
      i: "i < ?n" and best: "nlargest1 key (filter P xs) = [xs ! i]" and Pi: "P (xs ! i)"
      and ge: "\<And>j. j < ?n \<Longrightarrow> P (xs ! j) \<Longrightarrow> key (xs ! j) \<le> key (xs ! i)"
      and gt: "\<And>j. j < i \<Longrightarrow> P (xs ! j) \<Longrightarrow> key (xs ! j) < key (xs ! i)"
      by blast
    from True have ne: "filter P xs \<noteq> []"
      by (simp add: filter_empty_conv)
    show ?thesis
    proof (cases "P y \<and> key (xs ! i) < key y")
      case True
      with nlargest1_snoc [OF ne, of key y] best
      have "nlargest1 key (filter P (xs @ [y])) = [y]"
        by auto
      moreover have "key (xs ! j) < key y" if "j < ?n" "P (xs ! j)" for j
        using ge [OF that] True by simp
      ultimately have "?n < length (xs @ [y]) \<and>
        nlargest1 key (filter P (xs @ [y])) = [(xs @ [y]) ! ?n] \<and>
        P ((xs @ [y]) ! ?n) \<and>
        (\<forall>j < length (xs @ [y]). P ((xs @ [y]) ! j) \<longrightarrow>
           key ((xs @ [y]) ! j) \<le> key ((xs @ [y]) ! ?n)) \<and>
        (\<forall>j < ?n. P ((xs @ [y]) ! j) \<longrightarrow> key ((xs @ [y]) ! j) < key ((xs @ [y]) ! ?n))"
        using True by (auto simp: nth_append less_Suc_eq intro: less_imp_le)
      then show ?thesis by blast
    next
      case False
      have "nlargest1 key (filter P (xs @ [y])) = [xs ! i]"
      proof (cases "P y")
        case True
        with False nlargest1_snoc [OF ne, of key y] best show ?thesis
          by auto
      next
        case False
        with best show ?thesis by simp
      qed
      moreover have "P y \<longrightarrow> key y \<le> key (xs ! i)"
        using False by auto
      ultimately have "i < length (xs @ [y]) \<and>
        nlargest1 key (filter P (xs @ [y])) = [(xs @ [y]) ! i] \<and>
        P ((xs @ [y]) ! i) \<and>
        (\<forall>j < length (xs @ [y]). P ((xs @ [y]) ! j) \<longrightarrow>
           key ((xs @ [y]) ! j) \<le> key ((xs @ [y]) ! i)) \<and>
        (\<forall>j < i. P ((xs @ [y]) ! j) \<longrightarrow> key ((xs @ [y]) ! j) < key ((xs @ [y]) ! i))"
        using i Pi ge gt by (auto simp: nth_append less_Suc_eq)
      then show ?thesis by blast
    qed
  qed
qed

lemma MorphAnalyzer_get_lexeme_slots:
  assumes "MorphAnalyzer_get_lexeme m form = Inr lexeme"
    and "fst (last (methods form)) = self_id (dictionary m)"
    and "i < length lexeme"
  shows "idx (lexeme ! i) = i"
proof -
  from assms(1,2) have "Dictionary_get_lexeme (dictionary m) form (methods form) = Inr lexeme"
    by (auto simp: MorphAnalyzer_get_lexeme_def component_get_lexeme_def Let_def bind_eq_Inr
        split: if_splits)
  from Dictionary_get_lexeme_records [OF this] assms(3) show ?thesis
    by auto
qed

text \<open>
  Claim C7: for every record whose lexeme the analyzer can build and every set of
  required grammemes, \<open>inflect\<close> returns none exactly when no record of the lexeme has
  a tag that contains all the required grammemes. Otherwise it returns a record of
  the lexeme whose tag contains them all and for which the number of grammemes that
  its tag shares with \<open>updated_grammemes\<close> of the input tag is the greatest among
  such records, every such record before it in the lexeme sharing strictly fewer; in
  a lexeme of the dictionary the position of a record is its slot index, so ties go
  to the earliest slot.
\<close>

theorem inflect_first_best_candidate:
  assumes "MorphAnalyzer_get_lexeme m form = Inr lexeme"
  shows
    "(Parse_inflect m form required = Inr None \<longleftrightarrow>
        \<not> (\<exists>f \<in> set lexeme. required \<subseteq> grammemes (tag f))) \<and>
     ((\<exists>f \<in> set lexeme. required \<subseteq> grammemes (tag f)) \<longrightarrow>
        (\<exists>i < length lexeme.
           Parse_inflect m form required = Inr (Some (lexeme ! i)) \<and>
           required \<subseteq> grammemes (tag (lexeme ! i)) \<and>
           (\<forall>j < length lexeme. required \<subseteq> grammemes (tag (lexeme ! j)) \<longrightarrow>
              card (Tag_updated_grammemes (dictionary m) (tag form) required \<inter>
                    grammemes (tag (lexeme ! j)))
                \<le> card (Tag_updated_grammemes (dictionary m) (tag form) required \<inter>
                         grammemes (tag (lexeme ! i)))) \<and>
           (\<forall>j < i. required \<subseteq> grammemes (tag (lexeme ! j)) \<longrightarrow>
              card (Tag_updated_grammemes (dictionary m) (tag form) required \<inter>
                    grammemes (tag (lexeme ! j)))
                < card (Tag_updated_grammemes (dictionary m) (tag form) required \<inter>
                        grammemes (tag (lexeme ! i)))) \<and>
           (fst (last (methods form)) = self_id (dictionary m) \<longrightarrow> idx (lexeme ! i) = i)))"
proof -
  let ?P = "\<lambda>f. required \<subseteq> grammemes (tag f)"
  let ?gs = "Tag_updated_grammemes (dictionary m) (tag form) required"
  let ?key = "\<lambda>f. card (?gs \<inter> grammemes (tag f))"
  have key: "similarity ?gs = ?key"
    by (simp add: fun_eq_iff similarity_def)
  have run: "Parse_inflect m form required =
      Inr (case nlargest1 ?key (filter ?P lexeme) of [] \<Rightarrow> None | r # rest \<Rightarrow> Some r)"
    using assms by (simp add: Parse_inflect_def MorphAnalyzer_inflect_def Let_def key)
  have none: "Parse_inflect m form required = Inr None \<longleftrightarrow> \<not> (\<exists>f \<in> set lexeme. ?P f)"
    using nlargest1_filter_empty [of ?key ?P lexeme]
    by (cases "nlargest1 ?key (filter ?P lexeme)") (simp_all add: run)
  have some: "\<exists>i < length lexeme.
           Parse_inflect m form required = Inr (Some (lexeme ! i)) \<and> ?P (lexeme ! i) \<and>
           (\<forall>j < length lexeme. ?P (lexeme ! j) \<longrightarrow> ?key (lexeme ! j) \<le> ?key (lexeme ! i)) \<and>
           (\<forall>j < i. ?P (lexeme ! j) \<longrightarrow> ?key (lexeme ! j) < ?key (lexeme ! i)) \<and>
           (fst (last (methods form)) = self_id (dictionary m) \<longrightarrow> idx (lexeme ! i) = i)"
    if "\<exists>f \<in> set lexeme. ?P f"
  proof -
    from nlargest1_filter_first_best [OF that, of ?key] obtain i where
      i: "i < length lexeme" "nlargest1 ?key (filter ?P lexeme) = [lexeme ! i]" "?P (lexeme ! i)"
      "\<forall>j < length lexeme. ?P (lexeme ! j) \<longrightarrow> ?key (lexeme ! j) \<le> ?key (lexeme ! i)"
      "\<forall>j < i. ?P (lexeme ! j) \<longrightarrow> ?key (lexeme ! j) < ?key (lexeme ! i)"
      by blast
    moreover from i(2) have "Parse_inflect m form required = Inr (Some (lexeme ! i))"
      by (simp add: run)
    moreover have "fst (last (methods form)) = self_id (dictionary m) \<longrightarrow> idx (lexeme ! i) = i"
      using MorphAnalyzer_get_lexeme_slots [OF assms _ i(1)] by blast
    ultimately show ?thesis
      by blast
  qed
  show ?thesis
    using none some by blast
qed

lemma demo_morph_get_lexeme:
  "MorphAnalyzer_get_lexeme (demo_morph []) demo_form = Inr (demo_lexeme (methods demo_form))"
  by (simp add: MorphAnalyzer_get_lexeme_def component_get_lexeme_def demo_morph_def
      Dictionary_get_lexeme_def build_paradigm_info_def build_stem_def
      build_tag_info_def getitem_def demo_form_def demo_lexeme_def demo_simps upt_rec
      enumerate_eq_zip wrap_results_def Parse_new_def Let_def)

lemma demo_dative_get_lexeme:
  "MorphAnalyzer_get_lexeme (demo_morph []) dative_form =
     Inr (demo_lexeme (methods dative_form))"
  by (simp add: MorphAnalyzer_get_lexeme_def component_get_lexeme_def demo_morph_def
      Dictionary_get_lexeme_def build_paradigm_info_def build_stem_def
      build_tag_info_def getitem_def dative_form_def demo_lexeme_def demo_simps upt_rec
      enumerate_eq_zip wrap_results_def Parse_new_def Let_def)

lemma demo_updated_grammemes:
  "Tag_updated_grammemes (dictionary (demo_morph [])) t required = grammemes t \<union> required"
  by (simp add: demo_morph_def demo_simps)

lemma demo_inflect_noun:
  "Parse_inflect (demo_morph []) demo_form {''NOUN''} =
     Inr (Some (demo_lexeme (methods demo_form) ! 1))"
  unfolding Parse_inflect_def MorphAnalyzer_inflect_def Let_def demo_morph_get_lexeme
    demo_updated_grammemes bind_Inr
  by (simp add: nlargest1_def similarity_def demo_lexeme_def demo_form_def demo_gramtab_def
      card_insert_if)

lemma demo_inflect_plur:
  "Parse_inflect (demo_morph []) dative_form {''plur''} =
     Inr (Some (demo_lexeme (methods dative_form) ! 1))"
  unfolding Parse_inflect_def MorphAnalyzer_inflect_def Let_def demo_dative_get_lexeme
    demo_updated_grammemes bind_Inr
  by (simp add: nlargest1_def similarity_def demo_lexeme_def dative_form_def demo_gramtab_def
      card_insert_if)

text \<open>
  Three runs on the lexeme of paradigm 0. With the plural nominative record and
  \<open>NOUN\<close> required, all four slots pass the filter and share 2, 3, 2 and 1 grammemes:
  slot 1 is returned, not the first record that passes. With the dative record and
  \<open>plur\<close> required, slots 1 and 2 pass and share 2 grammemes each: the earlier one is
  returned. With \<open>COMP\<close> required no slot passes.
\<close>

theorem inflect_first_best_candidate_witness:
  "MorphAnalyzer_get_lexeme (demo_morph []) demo_form =
     Inr (demo_lexeme (methods demo_form)) \<and>
   Parse_inflect (demo_morph []) demo_form {''NOUN''} =
     Inr (Some (demo_lexeme (methods demo_form) ! 1)) \<and>
   map (\<lambda>f. card (Tag_updated_grammemes (dictionary (demo_morph [])) (tag demo_form) {''NOUN''}
                 \<inter> grammemes (tag f)))
     (demo_lexeme (methods demo_form)) = [2, 3, 2, 1] \<and>
   MorphAnalyzer_get_lexeme (demo_morph []) dative_form =
     Inr (demo_lexeme (methods dative_form)) \<and>
   Parse_inflect (demo_morph []) dative_form {''plur''} =
     Inr (Some (demo_lexeme (methods dative_form) ! 1)) \<and>
   map (\<lambda>f. card (Tag_updated_grammemes (dictionary (demo_morph [])) (tag dative_form) {''plur''}
                 \<inter> grammemes (tag f)))
     (filter (\<lambda>f. {''plur''} \<subseteq> grammemes (tag f)) (demo_lexeme (methods dative_form))) =
     [2, 2] \<and>
   Parse_inflect (demo_morph []) dative_form {''COMP''} = Inr None"
proof -
  note noun = inflect_first_best_candidate [OF demo_morph_get_lexeme]
  note dative = inflect_first_best_candidate [OF demo_dative_get_lexeme]
  have "Parse_inflect (demo_morph []) dative_form {''COMP''} = Inr None"
    using dative [of "{''COMP''}", THEN conjunct1]
    by (simp add: demo_lexeme_def demo_gramtab_def)
  moreover have
    "map (\<lambda>f. card (Tag_updated_grammemes (dictionary (demo_morph [])) (tag demo_form)
                     {''NOUN''} \<inter> grammemes (tag f)))
       (demo_lexeme (methods demo_form)) = [2, 3, 2, 1]"
    by (simp add: demo_updated_grammemes demo_lexeme_def demo_form_def demo_gramtab_def
        card_insert_if)
  moreover have
    "map (\<lambda>f. card (Tag_updated_grammemes (dictionary (demo_morph [])) (tag dative_form)
                     {''plur''} \<inter> grammemes (tag f)))
       (filter (\<lambda>f. {''plur''} \<subseteq> grammemes (tag f)) (demo_lexeme (methods dative_form))) =
       [2, 2]"
    by (simp add: demo_updated_grammemes demo_lexeme_def dative_form_def demo_gramtab_def
        card_insert_if)
  ultimately show ?thesis
    using noun [of "{''NOUN''}"] demo_morph_get_lexeme demo_inflect_noun
      demo_dative_get_lexeme demo_inflect_plur
    by simp
qed

end
